theory Spec2Isabelle
  imports Complex_Main
begin

section \<open>Numbers and geometry\<close>

text \<open>
  A JavaScript number is modelled by the real number it denotes; comparisons,
  \<open>Math.min\<close>, \<open>Math.max\<close> and \<open>Math.abs\<close> are exact on doubles and are the
  corresponding operations on \<^typ>\<open>real\<close>. The arithmetic of the coordinate transform
  and of the extents of a drawn box is rounded as the source rounds it: the result of
  every \<open>+\<close>, \<open>-\<close>, \<open>*\<close> and \<open>/\<close> there goes through \<open>round64\<close>, rounding to the
  nearest number with a 53 bit significand, ties to the even significand. The exponent
  range is not limited: overflow, subnormal numbers, \<open>NaN\<close> and \<open>Infinity\<close> are outside
  the model. The remaining arithmetic (moving, resizing and clamping a box, box sums in
  the bounds of a region, intersection over union, the decoders) is exact on the reals.
\<close>

text \<open>The binary exponent of a positive number: \<open>2 ^ expo x \<le> x < 2 ^ (expo x + 1)\<close>.\<close>

function expo :: "real \<Rightarrow> int" where
  "expo x = (if x \<le> 0 then 0
             else if x < 1 then expo (2 * x) - 1
             else if 2 \<le> x then expo (x / 2) + 1
             else 0)"
  by pat_completeness auto

termination
proof (relation "measure (\<lambda>x. if 1 \<le> x then nat \<lfloor>x\<rfloor> else nat \<lceil>1 / x\<rceil> + 1)")
  show "wf (measure (\<lambda>x::real. if 1 \<le> x then nat \<lfloor>x\<rfloor> else nat \<lceil>1 / x\<rceil> + 1))"
    by simp
next
  fix x :: real
  assume a: "\<not> x \<le> 0" "x < 1"
  show "(2 * x, x) \<in> measure (\<lambda>x. if 1 \<le> x then nat \<lfloor>x\<rfloor> else nat \<lceil>1 / x\<rceil> + 1)"
  proof (cases "1 \<le> 2 * x")
    case True
    then have "\<lfloor>2 * x\<rfloor> = 1" using a by (simp add: floor_eq_iff)
    moreover have "1 < 1 / x" using a by simp
    then have "1 < \<lceil>1 / x\<rceil>" by (simp add: less_ceiling_iff)
    ultimately show ?thesis using a True by simp
  next
    case False
    have y: "2 < 1 / x" using a False by (simp add: field_simps)
    have "1 / (2 * x) \<le> of_int \<lceil>1 / x\<rceil> - 1"
    proof -
      have "1 / (2 * x) = (1 / x) / 2" by simp
      also have "\<dots> \<le> 1 / x - 1" using y by simp
      also have "\<dots> \<le> of_int \<lceil>1 / x\<rceil> - 1" by simp
      finally show ?thesis .
    qed
    then have "\<lceil>1 / (2 * x)\<rceil> < \<lceil>1 / x\<rceil>" by (simp add: ceiling_less_iff)
    moreover have "0 < \<lceil>1 / x\<rceil>" using a by (simp add: less_ceiling_iff)
    ultimately show ?thesis using a False by simp
  qed
next
  fix x :: real
  assume a: "\<not> x \<le> 0" "\<not> x < 1" "2 \<le> x"
  have "x / 2 < of_int \<lfloor>x\<rfloor>"
  proof -
    have "x / 2 \<le> x - 1" using a by simp
    also have "\<dots> < of_int \<lfloor>x\<rfloor>" by linarith
    finally show ?thesis .
  qed
  then have "\<lfloor>x / 2\<rfloor> < \<lfloor>x\<rfloor>" by (simp add: floor_less_iff)
  moreover have "0 < \<lfloor>x\<rfloor>" using a by simp
  ultimately show "(x / 2, x) \<in> measure (\<lambda>x. if 1 \<le> x then nat \<lfloor>x\<rfloor> else nat \<lceil>1 / x\<rceil> + 1)"
    using a by simp
qed

declare expo.simps [simp del]

text \<open>Rounding to the nearest integer, a tie going to the even one.\<close>

definition rne :: "real \<Rightarrow> int" where
  "rne y = (let n = \<lfloor>y\<rfloor>; r = y - of_int n
            in if r < 1 / 2 then n else if 1 / 2 < r then n + 1
               else if even n then n else n + 1)"

text \<open>
  The double nearest to \<open>x\<close>: with \<open>2 ^ e \<le> \<bar>x\<bar> < 2 ^ (e + 1)\<close> the doubles around \<open>x\<close>
  are the multiples of \<open>2 ^ (e - 52)\<close>.
\<close>

definition round64 :: "real \<Rightarrow> real" where
  "round64 x = (if x = 0 then 0
                else let q = 2 powi (expo \<bar>x\<bar> - 52) in of_int (rne (x / q)) * q)"

definition CANVAS_WIDTH :: real where
  "CANVAS_WIDTH = 800"

definition CANVAS_HEIGHT :: real where
  "CANVAS_HEIGHT = 500"

record point =
  p_x :: real
  p_y :: real

record box =
  b_x :: real
  b_y :: real
  b_w :: real
  b_h :: real

record transform =
  t_scale :: real
  t_offsetX :: real
  t_offsetY :: real

datatype status = Auto | Approved | Flagged | Manual

text \<open>
  A region of the application: \<open>{ id, label, confidence, status, x, y, w, h }\<close>.
  Identifiers come from \<open>Date.now()\<close> and are integers.
\<close>

record region =
  r_id :: int
  r_label :: string
  r_confidence :: real
  r_status :: status
  r_x :: real
  r_y :: real
  r_w :: real
  r_h :: real

record image =
  img_id :: string
  img_name :: string
  img_width :: real
  img_height :: real

text \<open>\<open>getImageTransform\<close>: the guard \<open>!imageWidth || !imageHeight\<close> fires on a zero dimension.\<close>

definition getImageTransform :: "real \<Rightarrow> real \<Rightarrow> transform" where
  "getImageTransform imageWidth imageHeight =
    (if imageWidth = 0 \<or> imageHeight = 0
     then \<lparr> t_scale = 1, t_offsetX = 0, t_offsetY = 0 \<rparr>
     else
       let imageAspect = round64 (imageWidth / imageHeight);
           canvasAspect = round64 (CANVAS_WIDTH / CANVAS_HEIGHT)
       in if imageAspect > canvasAspect
          then \<lparr> t_scale = round64 (CANVAS_WIDTH / imageWidth),
                 t_offsetX = 0,
                 t_offsetY = round64 (round64 (CANVAS_HEIGHT - round64 (CANVAS_WIDTH / imageAspect)) / 2) \<rparr>
          else \<lparr> t_scale = round64 (CANVAS_HEIGHT / imageHeight),
                 t_offsetX = round64 (round64 (CANVAS_WIDTH - round64 (CANVAS_HEIGHT * imageAspect)) / 2),
                 t_offsetY = 0 \<rparr>)"

definition getScaledBoundingBox :: "region \<Rightarrow> real \<Rightarrow> real \<Rightarrow> box" where
  "getScaledBoundingBox rg imageWidth imageHeight =
    (let t = getImageTransform imageWidth imageHeight
     in \<lparr> b_x = round64 (round64 (r_x rg * t_scale t) + t_offsetX t),
           b_y = round64 (round64 (r_y rg * t_scale t) + t_offsetY t),
           b_w = round64 (r_w rg * t_scale t),
           b_h = round64 (r_h rg * t_scale t) \<rparr>)"

definition canvasToImageCoords :: "real \<Rightarrow> real \<Rightarrow> real \<Rightarrow> real \<Rightarrow> point" where
  "canvasToImageCoords canvasX canvasY imageWidth imageHeight =
    (let t = getImageTransform imageWidth imageHeight
     in \<lparr> p_x = round64 (round64 (canvasX - t_offsetX t) / t_scale t),
           p_y = round64 (round64 (canvasY - t_offsetY t) / t_scale t) \<rparr>)"

text \<open>\<open>clamp(value, min, max) = Math.max(min, Math.min(max, value))\<close>.\<close>

definition clamp :: "real \<Rightarrow> real \<Rightarrow> real \<Rightarrow> real" where
  "clamp v lo hi = max lo (min hi v)"

section \<open>JavaScript helpers\<close>

text \<open>
  \<open>Array.prototype.slice(start, end)\<close> on integer arguments: a negative index counts
  from the end of the array, and both indices are cut to the range of the array.
\<close>

definition js_slice :: "'a list \<Rightarrow> int \<Rightarrow> int \<Rightarrow> 'a list" where
  "js_slice xs start fin =
    (let len = int (length xs);
         k = (if start < 0 then max (len + start) 0 else min start len);
         e = (if fin < 0 then max (len + fin) 0 else min fin len)
     in take (nat (e - k)) (drop (nat k) xs))"

text \<open>\<open>[...new Set(xs)]\<close>: the elements of \<open>xs\<close> in order of first occurrence.\<close>

definition js_unique :: "'a list \<Rightarrow> 'a list" where
  "js_unique xs = rev (remdups (rev xs))"

text \<open>\<open>v || d\<close> on an optional number: \<open>undefined\<close> and \<open>0\<close> are falsy.\<close>

definition num_or :: "real option \<Rightarrow> real \<Rightarrow> real" where
  "num_or v d = (case v of None \<Rightarrow> d | Some a \<Rightarrow> if a = 0 then d else a)"

text \<open>\<open>v || d\<close> on an optional string: \<open>undefined\<close> and the empty string are falsy.\<close>

definition str_or :: "string option \<Rightarrow> string \<Rightarrow> string" where
  "str_or v d = (case v of None \<Rightarrow> d | Some a \<Rightarrow> if a = [] then d else a)"

text \<open>\<open>xs?.[i]\<close>: \<open>undefined\<close> when the array is absent or too short.\<close>

definition opt_nth :: "'a list option \<Rightarrow> nat \<Rightarrow> 'a option" where
  "opt_nth xs i = (case xs of None \<Rightarrow> None | Some ys \<Rightarrow> if i < length ys then Some (ys ! i) else None)"

section \<open>Application state\<close>

datatype mode = Select | Draw | Edit

text \<open>
  The value of \<open>lastSelectedIndex\<close>: \<open>null\<close> initially, then whatever index the last
  plain or toggle click passed (a number, or \<open>undefined\<close>).
\<close>

datatype anchor = Null | Undefined | Num int

text \<open>The messages of \<open>showToast\<close>, one constructor per template string of the source.\<close>

text \<open>
  The \<open>message\<close> of a caught error: the text of an \<open>Error\<close> thrown by the request, or the
  text the JavaScript engine gives the \<open>TypeError\<close> of reading a property of \<open>null\<close>.
\<close>

datatype err_message = Message string | EngineTypeError

datatype toast =
    ToastUndo
  | ToastRedo
  | ToastObjectsDetected nat
  | ToastProcessing nat nat string
  | ToastCompleted nat nat
  | ToastDetectionFailed err_message
  | ToastApproved nat
  | ToastFlagged nat
  | ToastDeleted nat
  | ToastChangedLabel nat string
  | ToastCreated string

type_synonym regionsByImage = "string \<Rightarrow> region list option"

text \<open>
  The React state of the component that the modelled handlers read or write. A history
  entry is \<open>JSON.stringify(regions)\<close> and is read back with \<open>JSON.parse\<close>; the model
  stores the mapping itself. Presentation state (workflow step, filters, collapsed
  panels, zoom) is left out.
\<close>

record app_state =
  regions :: regionsByImage
  history :: "regionsByImage list"
  historyIndex :: int
  images :: "image list"
  currentImageIndex :: nat
  selectedRegions :: "int list"
  lastSelectedIndex :: anchor
  annotationMode :: mode
  defaultLabel :: string
  isDrawing :: bool
  drawStart :: "point option"
  drawCurrent :: "point option"
  isDragging :: bool
  dragRegionId :: "int option"
  dragOffset :: point
  isResizing :: bool
  resizeRegionId :: "int option"
  resizeHandle :: "string option"
  resizeStart :: "point option"
  editingRegionId :: "int option"
  showLabelEditor :: bool
  isDetecting :: bool
  toast :: "toast option"

text \<open>The initial values of the \<open>useState\<close> calls.\<close>

definition initial_state :: app_state where
  "initial_state =
    \<lparr> regions = Map.empty, history = [], historyIndex = - 1, images = [],
      currentImageIndex = 0, selectedRegions = [], lastSelectedIndex = Null,
      annotationMode = Select, defaultLabel = ''object'',
      isDrawing = False, drawStart = None, drawCurrent = None,
      isDragging = False, dragRegionId = None, dragOffset = \<lparr> p_x = 0, p_y = 0 \<rparr>,
      isResizing = False, resizeRegionId = None, resizeHandle = None, resizeStart = None,
      editingRegionId = None, showLabelEditor = False, isDetecting = False,
      toast = None \<rparr>"

text \<open>\<open>currentImage = images[currentImageIndex] || null\<close>.\<close>

definition currentImage :: "app_state \<Rightarrow> image option" where
  "currentImage c =
    (if currentImageIndex c < length (images c) then Some (images c ! currentImageIndex c) else None)"

text \<open>\<open>regions[id] || []\<close>.\<close>

definition regionsOf :: "regionsByImage \<Rightarrow> string \<Rightarrow> region list" where
  "regionsOf rs k = (case rs k of None \<Rightarrow> [] | Some l \<Rightarrow> l)"

definition currentRegions :: "app_state \<Rightarrow> region list" where
  "currentRegions c = (case currentImage c of None \<Rightarrow> [] | Some img \<Rightarrow> regionsOf (regions c) (img_id img))"

definition allRegionIds :: "app_state \<Rightarrow> int list" where
  "allRegionIds c = map r_id (currentRegions c)"

section \<open>History manager\<close>

text \<open>
  The list that \<open>saveToHistory\<close> builds: the entries up to the pointer, the new
  snapshot appended, and the oldest entry shifted out above 50 entries.
\<close>

definition newHistory :: "regionsByImage list \<Rightarrow> int \<Rightarrow> regionsByImage \<Rightarrow> regionsByImage list" where
  "newHistory hist idx newRegions =
    (let nh = js_slice hist 0 (idx + 1) @ [newRegions]
     in if length nh > 50 then tl nh else nh)"

text \<open>
  \<open>saveToHistory\<close> is a callback over the \<open>history\<close> and \<open>historyIndex\<close> of the render
  it was created in: \<open>c\<close> is that render's state, \<open>s\<close> the state being built by the
  running handler.
\<close>

definition saveToHistory :: "app_state \<Rightarrow> regionsByImage \<Rightarrow> app_state \<Rightarrow> app_state" where
  "saveToHistory c newRegions s =
    (let nh = newHistory (history c) (historyIndex c) newRegions
     in s\<lparr> history := nh, historyIndex := int (length nh) - 1 \<rparr>)"

text \<open>The recurring pair \<open>setRegions(newRegions); saveToHistory(newRegions)\<close>.\<close>

definition commitRegions :: "regionsByImage \<Rightarrow> app_state \<Rightarrow> app_state" where
  "commitRegions newRegions c = saveToHistory c newRegions (c\<lparr> regions := newRegions \<rparr>)"

text \<open>
  \<open>handleUndo\<close> and \<open>handleRedo\<close>. Reading an entry outside the array gives
  \<open>undefined\<close>, on which \<open>JSON.parse\<close> throws after the pointer has been set.
\<close>

definition handleUndo :: "app_state \<Rightarrow> app_state" where
  "handleUndo c =
    (if historyIndex c > 0
     then (if nat (historyIndex c - 1) < length (history c)
           then c\<lparr> historyIndex := historyIndex c - 1,
                  regions := history c ! nat (historyIndex c - 1),
                  toast := Some ToastUndo \<rparr>
           else c\<lparr> historyIndex := historyIndex c - 1 \<rparr>)
     else c)"

definition handleRedo :: "app_state \<Rightarrow> app_state" where
  "handleRedo c =
    (if historyIndex c < int (length (history c)) - 1
     then (if 0 \<le> historyIndex c + 1
           then c\<lparr> historyIndex := historyIndex c + 1,
                  regions := history c ! nat (historyIndex c + 1),
                  toast := Some ToastRedo \<rparr>
           else c\<lparr> historyIndex := historyIndex c + 1 \<rparr>)
     else c)"

text \<open>Auxiliary notions for the history proofs: the eviction step, and a pointer at the top.\<close>

definition cap :: "'a list \<Rightarrow> 'a list" where
  "cap l = (if length l > 50 then tl l else l)"

definition at_top :: "app_state \<Rightarrow> bool" where
  "at_top s = (historyIndex s = int (length (history s)) - 1)"

section \<open>Remote detection decoder (GroundingDINODetector.transformDetections)\<close>

text \<open>
  The coordinate shapes of a detection item, in the order the decoder tests them: a
  \<open>bbox\<close> field holding \<open>[x, y, width, height]\<close>; a \<open>box\<close> field holding the array
  \<open>[x1, y1, x2, y2]\<close> or an object \<open>{x, y, width, height}\<close>; otherwise the direct
  fields \<open>x\<close>, \<open>y\<close>, \<open>width\<close> or \<open>w\<close>, \<open>height\<close> or \<open>h\<close>, each of which may be absent.
  The model covers items whose arrays hold four numbers and whose box object holds the
  four numeric fields.
\<close>

datatype dino_shape =
    BBox real real real real
  | BoxArray real real real real
  | BoxObject real real real real
  | Direct "real option" "real option" "real option" "real option" "real option" "real option"

record dino_det =
  dd_shape :: dino_shape
  dd_label :: "string option"
  dd_class :: "string option"
  dd_className :: "string option"
  dd_confidence :: "real option"
  dd_score :: "real option"

text \<open>A response is an object with optional \<open>detections\<close> and \<open>predictions\<close> arrays, or a bare array.\<close>

datatype dino_response =
    RespObject "dino_det list option" "dino_det list option"
  | RespArray "dino_det list"

text \<open>A label is a string of the item, or the template \<open>object_${idx}\<close>.\<close>

datatype dino_label = Label string | ObjectIdx nat

record dino_out =
  o_x :: real
  o_y :: real
  o_width :: real
  o_height :: real
  o_confidence :: real
  o_label :: dino_label
  o_className :: dino_label

definition responseDetections :: "dino_response \<Rightarrow> dino_det list" where
  "responseDetections apiResponse =
    (case apiResponse of
       RespObject (Some ds) _ \<Rightarrow> ds
     | RespObject None (Some ps) \<Rightarrow> ps
     | RespObject None None \<Rightarrow> []
     | RespArray ds \<Rightarrow> ds)"

definition shapeCoords :: "dino_shape \<Rightarrow> real \<times> real \<times> real \<times> real" where
  "shapeCoords sh =
    (case sh of
       BBox x y width height \<Rightarrow> (x, y, width, height)
     | BoxArray x1 y1 x2 y2 \<Rightarrow> (x1, y1, x2 - x1, y2 - y1)
     | BoxObject x y width height \<Rightarrow> (x, y, width, height)
     | Direct x y width w height h \<Rightarrow>
         (num_or x 0, num_or y 0, num_or width (num_or w 0), num_or height (num_or h 0)))"

definition detLabel :: "dino_det \<Rightarrow> nat \<Rightarrow> dino_label" where
  "detLabel det idx =
    (case str_or (dd_label det) (str_or (dd_class det) (str_or (dd_className det) [])) of
       [] \<Rightarrow> ObjectIdx idx
     | s \<Rightarrow> Label s)"

definition transformDetection :: "real \<Rightarrow> real \<Rightarrow> nat \<Rightarrow> dino_det \<Rightarrow> dino_out" where
  "transformDetection imgWidth imgHeight idx det =
    (let (x0, y0, width0, height0) = shapeCoords (dd_shape det);
         normalized = (x0 < 1 \<and> y0 < 1 \<and> width0 < 1 \<and> height0 < 1);
         x = (if normalized then x0 * imgWidth else x0);
         y = (if normalized then y0 * imgHeight else y0);
         width = (if normalized then width0 * imgWidth else width0);
         height = (if normalized then height0 * imgHeight else height0);
         label = detLabel det idx;
         confidence = num_or (dd_confidence det) (num_or (dd_score det) 0.5)
     in \<lparr> o_x = max 0 x, o_y = max 0 y,
           o_width = min (imgWidth - x) width, o_height = min (imgHeight - y) height,
           o_confidence = confidence, o_label = label, o_className = label \<rparr>)"

definition transformDetections :: "dino_response \<Rightarrow> real \<Rightarrow> real \<Rightarrow> dino_out list" where
  "transformDetections apiResponse imgWidth imgHeight =
    map (\<lambda>(idx, det). transformDetection imgWidth imgHeight idx det)
      (enumerate 0 (responseDetections apiResponse))"

section \<open>Non-maximum suppression (YOLODetector.nms)\<close>

record detection =
  d_x :: real
  d_y :: real
  d_width :: real
  d_height :: real
  d_confidence :: real
  d_classId :: nat

definition calculateIoU :: "detection \<Rightarrow> detection \<Rightarrow> real" where
  "calculateIoU box1 box2 =
    (let x1 = max (d_x box1) (d_x box2);
         y1 = max (d_y box1) (d_y box2);
         x2 = min (d_x box1 + d_width box1) (d_x box2 + d_width box2);
         y2 = min (d_y box1 + d_height box1) (d_y box2 + d_height box2);
         intersection = max 0 (x2 - x1) * max 0 (y2 - y1);
         area1 = d_width box1 * d_height box1;
         area2 = d_width box2 * d_height box2;
         union = area1 + area2 - intersection
     in if union > 0 then intersection / union else 0)"

text \<open>
  \<open>detections.sort((a, b) => b.confidence - a.confidence)\<close>: a stable sort by descending
  confidence.
\<close>

definition sortByConfidence :: "detection list \<Rightarrow> detection list" where
  "sortByConfidence detections = sort_key (\<lambda>d. - d_confidence d) detections"

text \<open>The test of the inner loop that adds \<open>j\<close> to \<open>suppressed\<close> while \<open>i\<close> is being kept.\<close>

definition suppresses :: "detection list \<Rightarrow> real \<Rightarrow> nat \<Rightarrow> nat \<Rightarrow> bool" where
  "suppresses ds iouThreshold i j =
    (d_classId (ds ! i) = d_classId (ds ! j) \<and> calculateIoU (ds ! i) (ds ! j) > iouThreshold)"

text \<open>The inner loop \<open>for (j = i + 1; j < detections.length; j++)\<close>.\<close>

definition nms_inner :: "detection list \<Rightarrow> real \<Rightarrow> nat \<Rightarrow> nat set \<Rightarrow> nat set" where
  "nms_inner ds iouThreshold i suppressed =
    fold (\<lambda>j sup.
        if j \<in> sup then sup
        else if d_classId (ds ! i) \<noteq> d_classId (ds ! j) then sup
        else if calculateIoU (ds ! i) (ds ! j) > iouThreshold then insert j sup
        else sup)
      [i + 1 ..< length ds] suppressed"

text \<open>
  One round of the outer loop. The state is the list \<open>kept\<close> and the set \<open>suppressed\<close>;
  beside \<open>kept\<close> the model records the indices that were pushed, which the source does
  not store and which only the proofs read.
\<close>

definition nms_step ::
  "detection list \<Rightarrow> real \<Rightarrow> nat \<Rightarrow> detection list \<times> nat list \<times> nat set
    \<Rightarrow> detection list \<times> nat list \<times> nat set" where
  "nms_step ds iouThreshold i st =
    (case st of (kept, keptIdx, suppressed) \<Rightarrow>
       if i \<in> suppressed then (kept, keptIdx, suppressed)
       else (kept @ [ds ! i], keptIdx @ [i], nms_inner ds iouThreshold i suppressed))"

definition nms_loop :: "detection list \<Rightarrow> real \<Rightarrow> nat \<Rightarrow> detection list \<times> nat list \<times> nat set" where
  "nms_loop ds iouThreshold n = fold (nms_step ds iouThreshold) [0 ..< n] ([], [], {})"

definition nms :: "detection list \<Rightarrow> real \<Rightarrow> detection list" where
  "nms detections iouThreshold =
    (let ds = sortByConfidence detections
     in fst (nms_loop ds iouThreshold (length ds)))"

text \<open>The indices, in the sorted list, of the candidates that \<open>nms\<close> keeps.\<close>

definition nms_keptIdx :: "detection list \<Rightarrow> real \<Rightarrow> nat list" where
  "nms_keptIdx detections iouThreshold =
    (let ds = sortByConfidence detections
     in fst (snd (nms_loop ds iouThreshold (length ds))))"

text \<open>The invariant of the outer loop of \<open>nms\<close> after the indices below \<open>n\<close>.\<close>

definition nms_inv :: "detection list \<Rightarrow> real \<Rightarrow> nat \<Rightarrow> detection list \<times> nat list \<times> nat set \<Rightarrow> bool" where
  "nms_inv ds thr n st =
    (case st of (kept, keptIdx, suppressed) \<Rightarrow>
       kept = map (nth ds) keptIdx
       \<and> keptIdx = filter (\<lambda>k. k \<notin> suppressed) [0 ..< n]
       \<and> suppressed = {j. j < length ds \<and> (\<exists>k \<in> set keptIdx. k < j \<and> suppresses ds thr k j)})"

text \<open>
  Three candidates of one class in a row: the first overlaps the second, the second
  overlaps the third, the first and the third hardly overlap.
\<close>

definition box_a :: detection where
  "box_a = \<lparr> d_x = 0, d_y = 0, d_width = 10, d_height = 10, d_confidence = 9 / 10, d_classId = 0 \<rparr>"

definition box_b :: detection where
  "box_b = \<lparr> d_x = 4, d_y = 0, d_width = 10, d_height = 10, d_confidence = 8 / 10, d_classId = 0 \<rparr>"

definition box_c :: detection where
  "box_c = \<lparr> d_x = 8, d_y = 0, d_width = 10, d_height = 10, d_confidence = 7 / 10, d_classId = 0 \<rparr>"

section \<open>Bulk operations\<close>

text \<open>\<open>updateRegions(fn)\<close>: returns at once when there is no current image.\<close>

definition updateRegions :: "(region list \<Rightarrow> region list) \<Rightarrow> app_state \<Rightarrow> app_state" where
  "updateRegions fn c =
    (case currentImage c of
       None \<Rightarrow> c
     | Some img \<Rightarrow>
         commitRegions ((regions c)(img_id img \<mapsto> fn (regionsOf (regions c) (img_id img)))) c)"

definition handleApprove :: "app_state \<Rightarrow> app_state" where
  "handleApprove c =
    (if selectedRegions c \<noteq> []
     then (updateRegions
             (map (\<lambda>r. if r_id r \<in> set (selectedRegions c) then r\<lparr> r_status := Approved \<rparr> else r)) c)
          \<lparr> toast := Some (ToastApproved (length (selectedRegions c))), selectedRegions := [] \<rparr>
     else c)"

definition handleFlag :: "app_state \<Rightarrow> app_state" where
  "handleFlag c =
    (if selectedRegions c \<noteq> []
     then (updateRegions
             (map (\<lambda>r. if r_id r \<in> set (selectedRegions c) then r\<lparr> r_status := Flagged \<rparr> else r)) c)
          \<lparr> toast := Some (ToastFlagged (length (selectedRegions c))) \<rparr>
     else c)"

definition handleDelete :: "app_state \<Rightarrow> app_state" where
  "handleDelete c =
    (if selectedRegions c \<noteq> []
     then (updateRegions (filter (\<lambda>r. r_id r \<notin> set (selectedRegions c))) c)
          \<lparr> toast := Some (ToastDeleted (length (selectedRegions c))), selectedRegions := [] \<rparr>
     else c)"

definition handleBulkChangeLabel :: "string \<Rightarrow> app_state \<Rightarrow> app_state" where
  "handleBulkChangeLabel newLabel c =
    (if selectedRegions c \<noteq> []
     then (updateRegions
             (map (\<lambda>r. if r_id r \<in> set (selectedRegions c) then r\<lparr> r_label := newLabel \<rparr> else r)) c)
          \<lparr> toast := Some (ToastChangedLabel (length (selectedRegions c)) newLabel),
            selectedRegions := [] \<rparr>
     else c)"

section \<open>Selection\<close>

text \<open>The modifier keys of the click event; the event itself may be absent (\<open>e?.shiftKey\<close>).\<close>

record click =
  shiftKey :: bool
  metaKey :: bool
  ctrlKey :: bool

text \<open>\<open>setLastSelectedIndex(globalIdx)\<close>, where \<open>globalIdx\<close> may be \<open>undefined\<close>.\<close>

definition anchorOf :: "int option \<Rightarrow> anchor" where
  "anchorOf globalIdx = (case globalIdx of None \<Rightarrow> Undefined | Some g \<Rightarrow> Num g)"

text \<open>
  The ids of the range click. With an \<open>undefined\<close> anchor \<open>Math.min\<close> and \<open>Math.max\<close>
  give \<open>NaN\<close>, and \<open>slice(NaN, NaN)\<close> is empty.
\<close>

definition rangeIds :: "int list \<Rightarrow> anchor \<Rightarrow> int \<Rightarrow> int list" where
  "rangeIds ids a globalIdx =
    (case a of
       Num l \<Rightarrow> js_slice ids (min l globalIdx) (max l globalIdx + 1)
     | _ \<Rightarrow> [])"

definition handleSelectRegion :: "int \<Rightarrow> click option \<Rightarrow> int option \<Rightarrow> app_state \<Rightarrow> app_state" where
  "handleSelectRegion ident e globalIdx c =
    (if annotationMode c = Draw then c
     else if (case e of None \<Rightarrow> False | Some ev \<Rightarrow> shiftKey ev)
             \<and> lastSelectedIndex c \<noteq> Null \<and> globalIdx \<noteq> None
     then c\<lparr> selectedRegions :=
               js_unique (selectedRegions c @ rangeIds (allRegionIds c) (lastSelectedIndex c) (the globalIdx)) \<rparr>
     else if (case e of None \<Rightarrow> False | Some ev \<Rightarrow> metaKey ev \<or> ctrlKey ev)
     then c\<lparr> selectedRegions :=
               (if ident \<in> set (selectedRegions c)
                then filter (\<lambda>x. x \<noteq> ident) (selectedRegions c)
                else selectedRegions c @ [ident]),
             lastSelectedIndex := anchorOf globalIdx \<rparr>
     else c\<lparr> selectedRegions := [ident], lastSelectedIndex := anchorOf globalIdx \<rparr>)"

section \<open>Canvas gestures\<close>

text \<open>
  The handlers take the canvas coordinates of the pointer (the result of
  \<open>getCanvasCoords(e)\<close>) and, where the source calls \<open>Date.now()\<close>, the time.
\<close>

definition hitTest :: "image \<Rightarrow> point \<Rightarrow> region \<Rightarrow> bool" where
  "hitTest img canvasCoords r =
    (let scaled = getScaledBoundingBox r (img_width img) (img_height img)
     in p_x canvasCoords \<ge> b_x scaled \<and> p_x canvasCoords \<le> b_x scaled + b_w scaled
        \<and> p_y canvasCoords \<ge> b_y scaled \<and> p_y canvasCoords \<le> b_y scaled + b_h scaled)"

definition handleCanvasMouseDown :: "point \<Rightarrow> app_state \<Rightarrow> app_state" where
  "handleCanvasMouseDown canvasCoords c =
    (case currentImage c of
       None \<Rightarrow> c
     | Some img \<Rightarrow>
         if annotationMode c = Draw
         then c\<lparr> isDrawing := True, drawStart := Some canvasCoords,
                drawCurrent := Some canvasCoords, selectedRegions := [] \<rparr>
         else (case find (hitTest img canvasCoords) (currentRegions c) of
                 None \<Rightarrow> c\<lparr> selectedRegions := [] \<rparr>
               | Some clickedRegion \<Rightarrow> c))"

definition handleDragStart :: "int \<Rightarrow> point \<Rightarrow> app_state \<Rightarrow> app_state" where
  "handleDragStart regionId canvasCoords c =
    (if annotationMode c \<noteq> Edit then c
     else case find (\<lambda>r. r_id r = regionId) (currentRegions c) of
            None \<Rightarrow> c
          | Some rg \<Rightarrow>
              (case currentImage c of
                 None \<Rightarrow> c
               | Some img \<Rightarrow>
                   let scaled = getScaledBoundingBox rg (img_width img) (img_height img)
                   in c\<lparr> isDragging := True, dragRegionId := Some regionId,
                         dragOffset := \<lparr> p_x = p_x canvasCoords - b_x scaled,
                                         p_y = p_y canvasCoords - b_y scaled \<rparr>,
                         selectedRegions := [regionId] \<rparr>))"

text \<open>Without a current image \<open>currentImage.width\<close> throws before any state is set.\<close>

definition handleResizeStart :: "int \<Rightarrow> string \<Rightarrow> point \<Rightarrow> app_state \<Rightarrow> app_state" where
  "handleResizeStart regionId handle canvasCoords c =
    (case currentImage c of
       None \<Rightarrow> c
     | Some img \<Rightarrow>
         let imageCoords = canvasToImageCoords (p_x canvasCoords) (p_y canvasCoords)
               (img_width img) (img_height img)
         in c\<lparr> isResizing := True, resizeRegionId := Some regionId,
               resizeHandle := Some handle, resizeStart := Some imageCoords,
               selectedRegions := [regionId] \<rparr>)"

text \<open>The box that a drag step gives the dragged region.\<close>

definition dragged :: "image \<Rightarrow> point \<Rightarrow> region \<Rightarrow> region" where
  "dragged img imageCoords r =
    r\<lparr> r_x := clamp (p_x imageCoords) 0 (img_width img - r_w r),
       r_y := clamp (p_y imageCoords) 0 (img_height img - r_h r) \<rparr>"

text \<open>
  The box that a resize step computes from the region, the handle, the pointer and the
  previous pointer: \<open>(newX, newY, newW, newH)\<close>.
\<close>

definition resized :: "image \<Rightarrow> string \<Rightarrow> point \<Rightarrow> point \<Rightarrow> region \<Rightarrow> real \<times> real \<times> real \<times> real" where
  "resized img handle imageCoords start rg =
    (let newX0 = r_x rg; newY0 = r_y rg; newW0 = r_w rg; newH0 = r_h rg;
         newX1 = (if CHR ''w'' \<in> set handle
                  then clamp (r_x rg + (p_x imageCoords - p_x start)) 0 (r_x rg + r_w rg - 20)
                  else newX0);
         newW1 = (if CHR ''w'' \<in> set handle then r_w rg - (newX1 - r_x rg) else newW0);
         newW2 = (if CHR ''e'' \<in> set handle
                  then clamp (p_x imageCoords - r_x rg) 20 (img_width img - r_x rg)
                  else newW1);
         newY1 = (if CHR ''n'' \<in> set handle
                  then clamp (r_y rg + (p_y imageCoords - p_y start)) 0 (r_y rg + r_h rg - 20)
                  else newY0);
         newH1 = (if CHR ''n'' \<in> set handle then r_h rg - (newY1 - r_y rg) else newH0);
         newH2 = (if CHR ''s'' \<in> set handle
                  then clamp (p_y imageCoords - r_y rg) 20 (img_height img - r_y rg)
                  else newH1)
     in (newX1, newY1, newW2, newH2))"

text \<open>A region id or a handle name is truthy when it is present and not \<open>0\<close>, not empty.\<close>

definition truthyId :: "int option \<Rightarrow> bool" where
  "truthyId i = (case i of None \<Rightarrow> False | Some v \<Rightarrow> v \<noteq> 0)"

definition truthyStr :: "string option \<Rightarrow> bool" where
  "truthyStr s = (case s of None \<Rightarrow> False | Some v \<Rightarrow> v \<noteq> [])"

definition handleCanvasMouseMove :: "point \<Rightarrow> app_state \<Rightarrow> app_state" where
  "handleCanvasMouseMove canvasCoords c =
    (case currentImage c of
       None \<Rightarrow> c
     | Some img \<Rightarrow>
         if isDrawing c then c\<lparr> drawCurrent := Some canvasCoords \<rparr>
         else if isDragging c \<and> truthyId (dragRegionId c)
         then
           (let imageCoords = canvasToImageCoords (p_x canvasCoords - p_x (dragOffset c))
                  (p_y canvasCoords - p_y (dragOffset c)) (img_width img) (img_height img)
            in c\<lparr> regions := (regions c)(img_id img \<mapsto>
                  map (\<lambda>r. if Some (r_id r) = dragRegionId c then dragged img imageCoords r else r)
                    (regionsOf (regions c) (img_id img))) \<rparr>)
         else if isResizing c \<and> truthyId (resizeRegionId c) \<and> truthyStr (resizeHandle c)
                 \<and> resizeStart c \<noteq> None
         then
           (case find (\<lambda>r. Some (r_id r) = resizeRegionId c) (currentRegions c) of
              None \<Rightarrow> c
            | Some rg \<Rightarrow>
                let imageCoords = canvasToImageCoords (p_x canvasCoords) (p_y canvasCoords)
                      (img_width img) (img_height img);
                    (newX, newY, newW, newH) =
                      resized img (the (resizeHandle c)) imageCoords (the (resizeStart c)) rg
                in c\<lparr> regions := (regions c)(img_id img \<mapsto>
                        map (\<lambda>r. if Some (r_id r) = resizeRegionId c
                                  then r\<lparr> r_x := newX, r_y := newY, r_w := newW, r_h := newH \<rparr>
                                  else r)
                          (regionsOf (regions c) (img_id img))),
                      resizeStart := Some imageCoords \<rparr>)
         else c)"

text \<open>The extent \<open>Math.abs(b - a)\<close> of a drawn box along one axis.\<close>

definition drawExtent :: "real \<Rightarrow> real \<Rightarrow> real" where
  "drawExtent a b = \<bar>round64 (b - a)\<bar>"

text \<open>The region that a completed draw gesture creates from the two corners in image space.\<close>

definition drawnRegion :: "int \<Rightarrow> string \<Rightarrow> image \<Rightarrow> point \<Rightarrow> point \<Rightarrow> region" where
  "drawnRegion now lbl img startImg endImg =
    (let x = min (p_x startImg) (p_x endImg); y = min (p_y startImg) (p_y endImg);
         w = drawExtent (p_x startImg) (p_x endImg); h = drawExtent (p_y startImg) (p_y endImg)
     in \<lparr> r_id = now, r_label = lbl, r_confidence = 1.0, r_status = Manual,
           r_x = clamp x 0 (img_width img - w), r_y = clamp y 0 (img_height img - h),
           r_w = min w (img_width img), r_h = min h (img_height img) \<rparr>)"

text \<open>
  \<open>handleCanvasMouseUp\<close>. Its three \<open>if\<close> statements run in sequence; every read is
  from the render's state \<open>c\<close>, so each \<open>saveToHistory\<close> call builds on the history of
  \<open>c\<close> and the last one called sets the history.
\<close>

definition handleCanvasMouseUp :: "int \<Rightarrow> app_state \<Rightarrow> app_state" where
  "handleCanvasMouseUp now c =
    (let s1 =
       (case (isDrawing c, drawStart c, drawCurrent c, currentImage c) of
          (True, Some ds, Some dc, Some img) \<Rightarrow>
            (let startImg = canvasToImageCoords (p_x ds) (p_y ds) (img_width img) (img_height img);
                 endImg = canvasToImageCoords (p_x dc) (p_y dc) (img_width img) (img_height img);
                 w = drawExtent (p_x startImg) (p_x endImg);
                 h = drawExtent (p_y startImg) (p_y endImg);
                 s0 = (if w > 10 \<and> h > 10
                       then
                         (let newRegion = drawnRegion now (defaultLabel c) img startImg endImg;
                              newRegions = (regions c)(img_id img \<mapsto>
                                regionsOf (regions c) (img_id img) @ [newRegion])
                          in (commitRegions newRegions c)
                               \<lparr> selectedRegions := [r_id newRegion],
                                 toast := Some (ToastCreated (defaultLabel c)),
                                 editingRegionId := Some (r_id newRegion),
                                 showLabelEditor := True \<rparr>)
                       else c)
             in s0\<lparr> isDrawing := False, drawStart := None, drawCurrent := None \<rparr>)
        | _ \<Rightarrow> c);
         s2 = (if isDragging c
               then (saveToHistory c (regions c) s1)
                      \<lparr> isDragging := False, dragRegionId := None,
                        dragOffset := \<lparr> p_x = 0, p_y = 0 \<rparr> \<rparr>
               else s1);
         s3 = (if isResizing c
               then (saveToHistory c (regions c) s2)
                      \<lparr> isResizing := False, resizeRegionId := None, resizeHandle := None,
                        resizeStart := None \<rparr>
               else s2)
     in s3)"

section \<open>Detection runs\<close>

text \<open>
  A detection item of the service response as the application reads it: optional
  \<open>label\<close>, \<open>class\<close>, \<open>confidence\<close>, \<open>score\<close> and \<open>bbox\<close> array.
\<close>

record api_det =
  ad_label :: "string option"
  ad_class :: "string option"
  ad_confidence :: "real option"
  ad_score :: "real option"
  ad_bbox :: "real list option"

text \<open>
  The region built from item \<open>idx\<close>: \<open>base\<close> is \<open>Date.now()\<close> at that item plus, in the
  all-images run, \<open>processedCount * 10000\<close>.
\<close>

definition detectionRegion :: "int \<Rightarrow> nat \<Rightarrow> api_det \<Rightarrow> region" where
  "detectionRegion base idx det =
    \<lparr> r_id = base + int idx,
      r_label = str_or (ad_label det) (str_or (ad_class det) ''object''),
      r_confidence = num_or (ad_confidence det) (num_or (ad_score det) 0),
      r_status = Auto,
      r_x = num_or (opt_nth (ad_bbox det) 0) 0,
      r_y = num_or (opt_nth (ad_bbox det) 1) 0,
      r_w = num_or (opt_nth (ad_bbox det) 2) 100,
      r_h = num_or (opt_nth (ad_bbox det) 3) 100 \<rparr>"

text \<open>\<open>(result.detections || []).map(...)\<close>, with the clock read at every item.\<close>

definition detectionRegions :: "(nat \<Rightarrow> int) \<Rightarrow> int \<Rightarrow> api_det list option \<Rightarrow> region list" where
  "detectionRegions clock offset dets =
    map (\<lambda>(idx, det). detectionRegion (clock idx + offset) idx det)
      (enumerate 0 (case dets of None \<Rightarrow> [] | Some l \<Rightarrow> l))"


text \<open>
  One round of the loop of \<open>executeDetectAll\<close> over the state
  \<open>(processedCount, totalDetected, allNewRegions)\<close>: a failed request is caught and logged,
  and the loop goes on.
\<close>

definition detectAllStep ::
  "(image \<Rightarrow> string + api_det list option) \<Rightarrow> (nat \<Rightarrow> nat \<Rightarrow> int) \<Rightarrow> image
    \<Rightarrow> nat \<times> nat \<times> regionsByImage \<Rightarrow> nat \<times> nat \<times> regionsByImage" where
  "detectAllStep run clock img st =
    (case st of (processedCount0, totalDetected, allNewRegions) \<Rightarrow>
       let processedCount = processedCount0 + 1
       in case run img of
            Inl err \<Rightarrow> (processedCount, totalDetected, allNewRegions)
          | Inr dets \<Rightarrow>
              let detections =
                    detectionRegions (clock processedCount) (int processedCount * 10000) dets
              in (processedCount, totalDetected + length detections,
                  allNewRegions(img_id img \<mapsto> detections)))"

definition executeDetectAll ::
  "(image \<Rightarrow> string + api_det list option) \<Rightarrow> (nat \<Rightarrow> nat \<Rightarrow> int) \<Rightarrow> app_state \<Rightarrow> app_state" where
  "executeDetectAll run clock c =
    (case fold (detectAllStep run clock) (images c) (0, 0, Map.empty) of
       (processedCount, totalDetected, allNewRegions) \<Rightarrow>
         let newRegions = regions c ++ allNewRegions
         in (commitRegions newRegions c)
              \<lparr> toast := Some (ToastCompleted totalDetected (length (images c))),
                isDetecting := False \<rparr>)"

text \<open>A region lies within its image.\<close>

definition in_bounds :: "image \<Rightarrow> region \<Rightarrow> bool" where
  "in_bounds img r =
    (0 \<le> r_x r \<and> 0 \<le> r_y r \<and> r_x r + r_w r \<le> img_width img \<and> r_y r + r_h r \<le> img_height img)"

section \<open>Sample data\<close>

definition sample_image :: image where
  "sample_image = \<lparr> img_id = ''img_1'', img_name = ''a.png'', img_width = 800, img_height = 500 \<rparr>"

definition sample_region :: "int \<Rightarrow> region" where
  "sample_region i =
    \<lparr> r_id = i, r_label = ''car'', r_confidence = 0.9, r_status = Auto,
      r_x = 100, r_y = 100, r_w = 50, r_h = 50 \<rparr>"

text \<open>One 800 by 500 image with five regions, ids 10 to 14, nothing selected, empty history.\<close>

definition sample_state :: app_state where
  "sample_state =
    initial_state\<lparr> images := [sample_image],
      regions := [''img_1'' \<mapsto> map sample_region [10, 11, 12, 13, 14]] \<rparr>"

definition plain_click :: click where
  "plain_click = \<lparr> shiftKey = False, metaKey = False, ctrlKey = False \<rparr>"

definition shift_click :: click where
  "shift_click = \<lparr> shiftKey = True, metaKey = False, ctrlKey = False \<rparr>"



text \<open>
  The sample state in edit mode with region 11 selected; the same after one and after
  three flag operations; after three flags and two undos; and drags of region 11 started
  from there.
\<close>

definition edit_state :: app_state where
  "edit_state = sample_state\<lparr> annotationMode := Edit, selectedRegions := [11] \<rparr>"

definition flagged_once :: app_state where
  "flagged_once = handleFlag edit_state"

definition flagged_thrice :: app_state where
  "flagged_thrice = handleFlag (handleFlag (handleFlag edit_state))"

definition undone_twice :: app_state where
  "undone_twice = handleUndo (handleUndo flagged_thrice)"

definition drag_from :: "app_state \<Rightarrow> app_state" where
  "drag_from s = handleDragStart 11 \<lparr> p_x = 120, p_y = 120 \<rparr> s"

definition drag_moves :: "point list" where
  "drag_moves = [\<lparr> p_x = 130, p_y = 130 \<rparr>, \<lparr> p_x = 140, p_y = 150 \<rparr>]"

text \<open>The number of objects that one request outcome contributes to \<open>totalDetected\<close>.\<close>

definition objectCount :: "string + api_det list option \<Rightarrow> nat" where
  "objectCount result =
    (case result of
       Inl err \<Rightarrow> 0
     | Inr dets \<Rightarrow> length (case dets of None \<Rightarrow> [] | Some l \<Rightarrow> l))"

text \<open>
  Three images; a service that fails on the second and finds one object in each of the
  others; a clock that stands still.
\<close>

definition image_1 :: image where
  "image_1 = \<lparr> img_id = ''img_1'', img_name = ''a.png'', img_width = 800, img_height = 500 \<rparr>"

definition image_2 :: image where
  "image_2 = \<lparr> img_id = ''img_2'', img_name = ''b.png'', img_width = 800, img_height = 500 \<rparr>"

definition image_3 :: image where
  "image_3 = \<lparr> img_id = ''img_3'', img_name = ''c.png'', img_width = 800, img_height = 500 \<rparr>"

definition three_images :: app_state where
  "three_images = initial_state\<lparr> images := [image_1, image_2, image_3] \<rparr>"

definition car_det :: api_det where
  "car_det = \<lparr> ad_label = Some ''car'', ad_class = None, ad_confidence = Some 0.9,
      ad_score = None, ad_bbox = Some [10, 20, 30, 40] \<rparr>"

definition second_fails :: "image \<Rightarrow> string + api_det list option" where
  "second_fails img = (if img_id img = ''img_2'' then Inl ''Network error'' else Inr (Some [car_det]))"

definition still_clock :: "nat \<Rightarrow> nat \<Rightarrow> int" where
  "still_clock processedCount idx = 1000"



text \<open>
  Images of other sizes: 1920 by 1080 (shown at scale 5/12, rounded), 1600 by 1000 (shown
  at scale 1/2) and 50 by 50 (shown at scale 10, 150 canvas pixels from the left), and a
  box on the first.
\<close>

definition hd_image :: image where
  "hd_image = \<lparr> img_id = ''img_hd'', img_name = ''hd.png'', img_width = 1920, img_height = 1080 \<rparr>"

definition half_image :: image where
  "half_image = \<lparr> img_id = ''img_half'', img_name = ''half.png'', img_width = 1600, img_height = 1000 \<rparr>"

definition small_image :: image where
  "small_image = \<lparr> img_id = ''img_small'', img_name = ''small.png'', img_width = 50, img_height = 50 \<rparr>"


text \<open>
  A project holding one image, in draw mode, after the pointer went down at one canvas
  point and moved to another.
\<close>

definition draw_on :: "image \<Rightarrow> point \<Rightarrow> point \<Rightarrow> app_state" where
  "draw_on img a b =
    handleCanvasMouseMove b
      (handleCanvasMouseDown a (initial_state\<lparr> images := [img], annotationMode := Draw \<rparr>))"


section \<open>Coordinate round trip\<close>









lemma round64_zero: "round64 0 = 0"
  by (simp add: round64_def)

lemma round64_values:
  "round64 (5 / 12) = 7505999378950827 / 18014398509481984"
  "round64 (7505999378950827 / 18014398509481984) = 7505999378950827 / 18014398509481984"
  "round64 (117281240296107 / 281474976710656) = 117281240296107 / 281474976710656"
  "round64 (1 / 2) = 1 / 2"
  "round64 (1) = 1"
  "round64 (2501999792983616 / 2501999792983609) = 4503599627370509 / 4503599627370496"
  "round64 (8 / 5) = 3602879701896397 / 2251799813685248"
  "round64 (16 / 9) = 2001599834386887 / 1125899906842624"
  "round64 (61 / 10) = 3433994715870003 / 562949953421312"
  "round64 (8) = 8"
  "round64 (10) = 10"
  "round64 (5629499534213121 / 562949953421312) = 5629499534213121 / 562949953421312"
  "round64 (12) = 12"
  "round64 (161 / 10) = 2265873562520781 / 140737488355328"
  "round64 (337769972052787 / 17592186044416) = 337769972052787 / 17592186044416"
  "round64 (20) = 20"
  "round64 (187649984473770675 / 9007199254740992) = 2932031007402667 / 140737488355328"
  "round64 (85 / 4) = 85 / 4"
  "round64 (382805968326492203 / 18014398509481984) = 5981343255101441 / 281474976710656"
  "round64 (5981343255101441 / 281474976710656) = 5981343255101441 / 281474976710656"
  "round64 (25) = 25"
  "round64 (457865962116000427 / 18014398509481984) = 7154155658062507 / 281474976710656"
  "round64 (30) = 30"
  "round64 (13018217672867841 / 281474976710656) = 185 / 4"
  "round64 (50) = 50"
  "round64 (382805968326492160 / 7505999378950827) = 51"
  "round64 (382805968326492224 / 7505999378950827) = 7177611906121729 / 140737488355328"
  "round64 (61) = 61"
  "round64 (75) = 75"
  "round64 (83) = 83"
  "round64 (100) = 100"
  "round64 (104) = 104"
  "round64 (106) = 106"
  "round64 (108) = 108"
  "round64 (112) = 112"
  "round64 (150) = 150"
  "round64 (161) = 161"
  "round64 (450359962737049600 / 2501999792983609) = 180"
  "round64 (1495195076287004672 / 7505999378950827) = 3504363460047667 / 17592186044416"
  "round64 (200) = 200"
  "round64 (208) = 208"
  "round64 (212) = 212"
  "round64 (1801439850948198400 / 7505999378950827) = 240"
  "round64 (648518346341351424 / 2501999792983609) = 4559894622712627 / 17592186044416"
  "round64 (300) = 300"
  "round64 (900719925474099200 / 2001599834386887) = 450"
  "round64 (500) = 500"
  "round64 (600) = 600"
  "round64 (700) = 700"
  "round64 (450359962737049625 / 562949953421312) = 800"
  "round64 (900) = 900"
  "round64 (1000) = 1000"
  by (simp_all add: round64_def expo.simps rne_def Let_def power_int_minus)

lemma hd_transform:
  "getImageTransform 1920 1080
    = \<lparr> t_scale = 7505999378950827 / 18014398509481984, t_offsetX = 0, t_offsetY = 25 \<rparr>"
  by (simp add: getImageTransform_def Let_def CANVAS_WIDTH_def CANVAS_HEIGHT_def round64_values
      round64_zero)






section \<open>Undo and redo\<close>

lemma js_slice_prefix:
  assumes "0 \<le> idx + 1"
  shows "js_slice hist 0 (idx + 1) = take (nat (idx + 1)) hist"
  using assms by (auto simp add: js_slice_def Let_def min_def)

lemma newHistory_cap:
  assumes "0 \<le> idx + 1"
  shows "newHistory hist idx r = cap (take (nat (idx + 1)) hist @ [r])"
  using assms by (simp add: newHistory_def js_slice_prefix cap_def Let_def)

lemma commit_fields:
  "history (commitRegions r s) = newHistory (history s) (historyIndex s) r"
  "historyIndex (commitRegions r s) = int (length (newHistory (history s) (historyIndex s) r)) - 1"
  "regions (commitRegions r s) = r"
  by (simp_all add: commitRegions_def saveToHistory_def Let_def)

lemma commit_at_top: "at_top (commitRegions r s)"
  by (simp add: at_top_def commit_fields)

lemma commit_top_history:
  assumes "at_top s"
  shows "history (commitRegions r s) = cap (history s @ [r])"
  using assms by (simp add: commit_fields at_top_def newHistory_cap)

lemma cap_drop:
  assumes "length h \<le> 50"
  shows "cap (h @ [r]) = drop (length h + 1 - 50) (h @ [r])"
proof (cases "length h = 50")
  case True
  then have "length h + 1 - 50 = Suc 0" and "h \<noteq> []" by auto
  then show ?thesis using True by (simp add: cap_def drop_Suc)
next
  case False
  then have "length h + 1 - 50 = 0" using assms by simp
  then show ?thesis using False assms by (simp add: cap_def)
qed

lemma fold_commit_top:
  assumes "at_top s" and "length (history s) \<le> 50"
  shows "history (fold commitRegions rs s) = drop (length (history s) + length rs - 50) (history s @ rs)
    \<and> at_top (fold commitRegions rs s)"
  using assms
proof (induction rs arbitrary: s)
  case Nil
  then show ?case by simp
next
  case (Cons r rs)
  let ?s1 = "commitRegions r s"
  have h1: "history ?s1 = drop (length (history s) + 1 - 50) (history s @ [r])"
    using Cons.prems by (simp add: commit_top_history cap_drop)
  have len1: "length (history ?s1) \<le> 50"
    using Cons.prems h1 by simp
  have ih: "history (fold commitRegions rs ?s1)
      = drop (length (history ?s1) + length rs - 50) (history ?s1 @ rs)
      \<and> at_top (fold commitRegions rs ?s1)"
    using Cons.IH [OF commit_at_top len1] .
  have "drop (length (history ?s1) + length rs - 50) (history ?s1 @ rs)
      = drop (length (history s) + length (r # rs) - 50) (history s @ r # rs)"
  proof (cases "length (history s) = 50")
    case True
    then have k: "length (history s) + 1 - 50 = Suc 0" by simp
    have e1: "history ?s1 @ rs = drop (Suc 0) (history s @ r # rs)"
      using True by (simp add: h1 k)
    have l1: "length (history ?s1) = 50"
      using True by (simp add: h1 k)
    have k2: "length (history s) + length (r # rs) - 50 = length rs + Suc 0"
      using True by simp
    show ?thesis
      unfolding e1 l1 k2 by (simp del: drop_append)
  next
    case False
    then have k: "length (history s) + 1 - 50 = 0" using Cons.prems(2) by simp
    have e1: "history ?s1 = history s @ [r]"
      unfolding h1 k by simp
    show ?thesis
      using False Cons.prems(2) by (simp add: e1)
  qed
  then show ?case using ih by simp
qed


lemma undo_step:
  assumes "0 < historyIndex s" and "historyIndex s \<le> int (length (history s))"
  shows "history (handleUndo s) = history s"
    and "historyIndex (handleUndo s) = historyIndex s - 1"
    and "regions (handleUndo s) = history s ! nat (historyIndex s - 1)"
proof -
  have "nat (historyIndex s - 1) < length (history s)"
    using assms by linarith
  then show "history (handleUndo s) = history s"
    and "historyIndex (handleUndo s) = historyIndex s - 1"
    and "regions (handleUndo s) = history s ! nat (historyIndex s - 1)"
    using assms by (simp_all add: handleUndo_def)
qed

lemma undo_iter:
  assumes "int (Suc n) \<le> historyIndex s" and "historyIndex s \<le> int (length (history s))"
  shows "history ((handleUndo ^^ Suc n) s) = history s
    \<and> historyIndex ((handleUndo ^^ Suc n) s) = historyIndex s - int (Suc n)
    \<and> regions ((handleUndo ^^ Suc n) s) = history s ! nat (historyIndex s - int (Suc n))"
  using assms
proof (induction n)
  case 0
  then show ?case using undo_step [of s] by simp
next
  case (Suc n)
  let ?t = "(handleUndo ^^ Suc n) s"
  have ih: "history ?t = history s" "historyIndex ?t = historyIndex s - int (Suc n)"
    using Suc by simp_all
  have p: "0 < historyIndex ?t" "historyIndex ?t \<le> int (length (history ?t))"
    using Suc.prems ih by simp_all
  have e: "(handleUndo ^^ Suc (Suc n)) s = handleUndo ?t" by simp
  have a: "historyIndex ?t - 1 = historyIndex s - int (Suc (Suc n))"
    using ih by simp
  have H: "history (handleUndo ?t) = history s"
    using undo_step(1) [OF p] ih(1) by simp
  have I: "historyIndex (handleUndo ?t) = historyIndex s - int (Suc (Suc n))"
    using undo_step(2) [OF p] a by simp
  have "regions (handleUndo ?t) = history ?t ! nat (historyIndex ?t - 1)"
    by (rule undo_step(3) [OF p])
  also have "\<dots> = history s ! nat (historyIndex s - int (Suc (Suc n)))"
    unfolding ih(1) a ..
  finally show ?case
    unfolding e using H I by blast
qed

lemma redo_step:
  assumes "0 \<le> historyIndex s + 1" and "historyIndex s < int (length (history s)) - 1"
  shows "history (handleRedo s) = history s"
    and "historyIndex (handleRedo s) = historyIndex s + 1"
    and "regions (handleRedo s) = history s ! nat (historyIndex s + 1)"
  using assms by (simp_all add: handleRedo_def)

lemma redo_iter:
  assumes "0 \<le> historyIndex s + 1" and "historyIndex s + int (Suc n) \<le> int (length (history s)) - 1"
  shows "history ((handleRedo ^^ Suc n) s) = history s
    \<and> historyIndex ((handleRedo ^^ Suc n) s) = historyIndex s + int (Suc n)
    \<and> regions ((handleRedo ^^ Suc n) s) = history s ! nat (historyIndex s + int (Suc n))"
  using assms
proof (induction n)
  case 0
  then show ?case using redo_step [of s] by simp
next
  case (Suc n)
  let ?t = "(handleRedo ^^ Suc n) s"
  have ih: "history ?t = history s" "historyIndex ?t = historyIndex s + int (Suc n)"
    using Suc by simp_all
  have p: "0 \<le> historyIndex ?t + 1" "historyIndex ?t < int (length (history ?t)) - 1"
    using Suc.prems ih by simp_all
  have e: "(handleRedo ^^ Suc (Suc n)) s = handleRedo ?t" by simp
  have a: "historyIndex ?t + 1 = historyIndex s + int (Suc (Suc n))"
    using ih by simp
  have H: "history (handleRedo ?t) = history s"
    using redo_step(1) [OF p] ih(1) by simp
  have I: "historyIndex (handleRedo ?t) = historyIndex s + int (Suc (Suc n))"
    using redo_step(2) [OF p] a by simp
  have "regions (handleRedo ?t) = history ?t ! nat (historyIndex ?t + 1)"
    by (rule redo_step(3) [OF p])
  also have "\<dots> = history s ! nat (historyIndex s + int (Suc (Suc n)))"
    unfolding ih(1) a ..
  finally show ?case
    unfolding e using H I by blast
qed

lemma commit_truncate:
  assumes "0 \<le> historyIndex s"
  shows "commitRegions r (s\<lparr> history := take (nat (historyIndex s + 1)) (history s) \<rparr>) = commitRegions r s"
  using assms
  by (simp add: commitRegions_def saveToHistory_def Let_def newHistory_cap)

lemma commits_regions:
  "rs \<noteq> [] \<Longrightarrow> regions (fold commitRegions rs s) = last rs"
  by (induction rs arbitrary: s) (auto simp add: commit_fields)

lemma commits_restore:
  assumes i0: "0 \<le> historyIndex s"
    and i1: "historyIndex s < int (length (history s))"
    and l50: "length (history s) \<le> 50"
    and sync: "history s ! nat (historyIndex s) = regions s"
    and n: "length rs < 50"
  shows "regions ((handleUndo ^^ length rs) (fold commitRegions rs s)) = regions s
    \<and> regions ((handleRedo ^^ length rs) ((handleUndo ^^ length rs) (fold commitRegions rs s)))
        = regions (fold commitRegions rs s)"
proof (cases rs)
  case Nil
  then show ?thesis by simp
next
  case (Cons r rs')
  define N where "N = length rs"
  define base where "base = take (nat (historyIndex s + 1)) (history s)"
  define s0 where "s0 = s\<lparr> history := base \<rparr>"
  define full where "full = base @ rs"
  define k where "k = length base + N - 50"
  define sN where "sN = fold commitRegions rs s"
  have lb: "length base = nat (historyIndex s + 1)"
    using i0 i1 by (simp add: base_def)
  have lb1: "1 \<le> length base" "length base \<le> 50"
    using i0 i1 l50 lb by simp_all
  have top0: "at_top s0"
    using i0 by (simp add: at_top_def s0_def lb)
  have "fold commitRegions rs s = fold commitRegions rs s0"
    using commit_truncate [OF i0, of r] by (simp add: Cons s0_def base_def)
  then have sN0: "sN = fold commitRegions rs s0" by (simp add: sN_def)
  have hN: "history sN = drop k full" and topN: "at_top sN"
    using fold_commit_top [of s0 rs] top0 lb1
    by (simp_all add: sN0 s0_def full_def k_def N_def)
  have Npos: "N = Suc (length rs')" by (simp add: N_def Cons)
  have lenN: "length (history sN) = length base + N - k"
    by (simp add: hN full_def N_def)
  have kle: "k + N < length base + N" "k \<le> length base + N"
    using n lb1 by (simp_all add: k_def N_def)
  have idxN: "historyIndex sN = int (length base + N - k) - 1"
    using topN by (simp add: at_top_def lenN)
  have u: "history ((handleUndo ^^ N) sN) = history sN
    \<and> historyIndex ((handleUndo ^^ N) sN) = historyIndex sN - int N
    \<and> regions ((handleUndo ^^ N) sN) = history sN ! nat (historyIndex sN - int N)"
    unfolding Npos
    by (rule undo_iter) (use kle idxN lenN Npos in simp_all)
  have pos: "nat (historyIndex sN - int N) = length base - 1 - k"
    using kle idxN by simp
  have A0: "history sN ! (length base - 1 - k) = full ! (k + (length base - 1 - k))"
    unfolding hN using kle by (intro nth_drop) (simp add: full_def N_def)
  have A1: "k + (length base - 1 - k) = length base - 1"
    using kle by simp
  have B: "full ! (length base - 1) = base ! (length base - 1)"
  proof -
    have "length base - 1 < length base" using lb1 by linarith
    then show ?thesis by (simp add: full_def nth_append)
  qed
  have C: "length base - 1 = nat (historyIndex s)"
    using i0 lb by linarith
  have D: "base ! nat (historyIndex s) = history s ! nat (historyIndex s)"
    using i0 i1 by (simp add: base_def)
  have "regions ((handleUndo ^^ N) sN) = history sN ! (length base - 1 - k)"
    using u pos by simp
  also have "\<dots> = full ! (length base - 1)"
    using A0 unfolding A1 .
  also have "\<dots> = base ! nat (historyIndex s)"
    using B unfolding C .
  also have "\<dots> = regions s"
    using D sync by simp
  finally have undone: "regions ((handleUndo ^^ N) sN) = regions s" .
  let ?t = "(handleUndo ^^ N) sN"
  have r: "history ((handleRedo ^^ N) ?t) = history ?t
    \<and> historyIndex ((handleRedo ^^ N) ?t) = historyIndex ?t + int N
    \<and> regions ((handleRedo ^^ N) ?t) = history ?t ! nat (historyIndex ?t + int N)"
    unfolding Npos
    by (rule redo_iter) (use u kle idxN lenN Npos in simp_all)
  have "regions ((handleRedo ^^ N) ?t) = history sN ! nat (historyIndex sN)"
    using r u by simp
  also have "\<dots> = last (history sN)"
  proof -
    have ne: "history sN \<noteq> []" using lenN kle by auto
    have "nat (historyIndex sN) = length (history sN) - 1"
      using idxN lenN kle by linarith
    then show ?thesis using ne by (simp add: last_conv_nth)
  qed
  also have "\<dots> = last rs"
    using kle by (simp add: hN full_def Cons N_def)
  also have "\<dots> = regions sN"
  proof -
    have "rs \<noteq> []" by (simp add: Cons)
    then show ?thesis unfolding sN_def by (rule commits_regions [symmetric])
  qed
  finally show ?thesis
    using undone by (simp add: sN_def N_def)
qed

text \<open>
  C2 (as stated) fails on the first mutation of a session: the history starts empty, the
  first commit leaves the pointer at 0, and \<open>handleUndo\<close> does nothing there, so the
  regions before the mutation are not restored.
\<close>

theorem undo_first_mutation_counterexample:
  "regions ((handleUndo ^^ 1) (fold commitRegions [[''img'' \<mapsto> []]] initial_state)) ''img'' = Some []
   \<and> regions initial_state ''img'' = None"
  by (simp add: handleUndo_def commitRegions_def saveToHistory_def newHistory_def
      js_slice_def initial_state_def Let_def)

text \<open>
  C2 (amended). From a state whose pointer is a valid index of a history of at most 50
  entries and whose regions equal the snapshot at the pointer, after N < 50 consecutive
  committed mutations N calls of \<open>handleUndo\<close> restore the regions from before the
  mutations, and N calls of \<open>handleRedo\<close> then restore the regions after the last
  mutation. \<open>handleUndo\<close> changes nothing when the pointer is at 0, and it never changes
  the history list.
\<close>

theorem undo_redo_restore:
  assumes "0 \<le> historyIndex s"
    and "historyIndex s < int (length (history s))"
    and "length (history s) \<le> 50"
    and "history s ! nat (historyIndex s) = regions s"
    and "length rs < 50"
  shows "regions ((handleUndo ^^ length rs) (fold commitRegions rs s)) = regions s
    \<and> regions ((handleRedo ^^ length rs) ((handleUndo ^^ length rs) (fold commitRegions rs s)))
        = regions (fold commitRegions rs s)
    \<and> handleUndo (t\<lparr> historyIndex := 0 \<rparr>) = t\<lparr> historyIndex := 0 \<rparr>
    \<and> history (handleUndo t) = history t"
proof -
  have "handleUndo (t\<lparr> historyIndex := 0 \<rparr>) = t\<lparr> historyIndex := 0 \<rparr>"
    by (simp add: handleUndo_def)
  moreover have "history (handleUndo t) = history t"
    by (simp add: handleUndo_def)
  ultimately show ?thesis
    using commits_restore [OF assms] by simp
qed

theorem undo_redo_restore_witness:
  "0 \<le> historyIndex (initial_state\<lparr> history := [Map.empty], historyIndex := 0 \<rparr>)
   \<and> regions ((handleUndo ^^ 2) (fold commitRegions [[''a'' \<mapsto> []], [''b'' \<mapsto> []]]
        (initial_state\<lparr> history := [Map.empty], historyIndex := 0 \<rparr>))) = Map.empty
   \<and> regions ((handleRedo ^^ 2) ((handleUndo ^^ 2) (fold commitRegions [[''a'' \<mapsto> []], [''b'' \<mapsto> []]]
        (initial_state\<lparr> history := [Map.empty], historyIndex := 0 \<rparr>)))) = [''b'' \<mapsto> []]"
proof -
  let ?s = "initial_state\<lparr> history := [Map.empty], historyIndex := 0 \<rparr>"
  let ?rs = "[[''a'' \<mapsto> []], [''b'' \<mapsto> []]] :: regionsByImage list"
  have h1: "0 \<le> historyIndex ?s" by simp
  have h2: "historyIndex ?s < int (length (history ?s))" by simp
  have h3: "length (history ?s) \<le> 50" by simp
  have h4: "history ?s ! nat (historyIndex ?s) = regions ?s" by (simp add: initial_state_def)
  have h5: "length ?rs < 50" by simp
  have r: "regions (fold commitRegions ?rs ?s) = [''b'' \<mapsto> []]"
    by (simp add: commit_fields)
  have two: "length ?rs = 2" by simp
  show ?thesis
    using undo_redo_restore [OF h1 h2 h3 h4 h5, of ?s] h1 r
    unfolding two by (simp add: initial_state_def)
qed

section \<open>Zero confidence in the remote decoder\<close>

lemma transformDetections_length:
  "length (transformDetections resp iw ih) = length (responseDetections resp)"
  by (simp add: transformDetections_def)

lemma transformDetections_nth:
  assumes "i < length (responseDetections resp)"
  shows "transformDetections resp iw ih ! i = transformDetection iw ih i (responseDetections resp ! i)"
  using assms by (simp add: transformDetections_def nth_enumerate_eq)

lemma transformDetection_confidence:
  "o_confidence (transformDetection iw ih idx det) = num_or (dd_confidence det) (num_or (dd_score det) 0.5)"
  by (simp add: transformDetection_def Let_def split: prod.splits)

text \<open>
  C10. A detection item of the response whose \<open>confidence\<close> field is 0 and which has no
  \<open>score\<close> field is emitted by \<open>transformDetections\<close>, at the same position, with
  confidence 0.5: the zero is replaced by the default for a missing confidence.
\<close>

theorem zero_confidence_coerced:
  assumes "i < length (responseDetections resp)"
    and "dd_confidence (responseDetections resp ! i) = Some 0"
    and "dd_score (responseDetections resp ! i) = None"
  shows "i < length (transformDetections resp iw ih)
    \<and> o_confidence (transformDetections resp iw ih ! i) = 0.5"
  using assms
  by (simp add: transformDetections_length transformDetections_nth transformDetection_confidence num_or_def)

theorem zero_confidence_coerced_witness:
  "(0::nat) < length (responseDetections (RespObject (Some
      [\<lparr> dd_shape = BBox 10 20 30 40, dd_label = Some ''cat'', dd_class = None,
         dd_className = None, dd_confidence = Some 0, dd_score = None \<rparr>]) None))
   \<and> transformDetections (RespObject (Some
      [\<lparr> dd_shape = BBox 10 20 30 40, dd_label = Some ''cat'', dd_class = None,
         dd_className = None, dd_confidence = Some 0, dd_score = None \<rparr>]) None) 640 480
     = [\<lparr> o_x = 10, o_y = 20, o_width = 30, o_height = 40, o_confidence = 0.5,
          o_label = Label ''cat'', o_className = Label ''cat'' \<rparr>]"
  using zero_confidence_coerced [of 0 "RespObject (Some
      [\<lparr> dd_shape = BBox 10 20 30 40, dd_label = Some ''cat'', dd_class = None,
         dd_className = None, dd_confidence = Some 0, dd_score = None \<rparr>]) None" 640 480]
  by (simp add: transformDetections_def transformDetection_def responseDetections_def
      shapeCoords_def detLabel_def str_or_def num_or_def Let_def)

section \<open>Greedy class-wise suppression\<close>

lemma nms_inner_fold:
  "fold (\<lambda>j sup.
        if j \<in> sup then sup
        else if d_classId (ds ! i) \<noteq> d_classId (ds ! j) then sup
        else if calculateIoU (ds ! i) (ds ! j) > thr then insert j sup
        else sup) [a ..< b] sup0
   = sup0 \<union> {j. a \<le> j \<and> j < b \<and> suppresses ds thr i j}"
proof (induction b)
  case 0
  then show ?case by simp
next
  case (Suc b)
  show ?case
  proof (cases "a \<le> b")
    case True
    then have "[a ..< Suc b] = [a ..< b] @ [b]" by simp
    then show ?thesis
      using Suc True by (auto simp add: suppresses_def less_Suc_eq)
  next
    case False
    then show ?thesis by auto
  qed
qed

lemma nms_inner_eq:
  "nms_inner ds thr i sup0 = sup0 \<union> {j. i < j \<and> j < length ds \<and> suppresses ds thr i j}"
  unfolding nms_inner_def nms_inner_fold by auto

lemma nms_loop_Suc:
  "nms_loop ds thr (Suc n) = nms_step ds thr n (nms_loop ds thr n)"
  by (simp add: nms_loop_def)

lemma nms_step_inv:
  assumes "nms_inv ds thr n st"
  shows "nms_inv ds thr (Suc n) (nms_step ds thr n st)"
proof -
  obtain kept kidx sup where st: "st = (kept, kidx, sup)"
    by (cases st) auto
  have c: "kept = map (nth ds) kidx
      \<and> kidx = filter (\<lambda>k. k \<notin> sup) [0 ..< n]
      \<and> sup = {j. j < length ds \<and> (\<exists>k \<in> set kidx. k < j \<and> suppresses ds thr k j)}"
    using assms unfolding nms_inv_def st prod.case .
  note k = c [THEN conjunct1]
    and f = c [THEN conjunct2, THEN conjunct1]
    and s = c [THEN conjunct2, THEN conjunct2]
  show ?thesis
  proof (cases "n \<in> sup")
    case True
    have step: "nms_step ds thr n st = (kept, kidx, sup)"
      using True by (simp add: nms_step_def st)
    have "filter (\<lambda>k. k \<notin> sup) [0 ..< Suc n] = filter (\<lambda>k. k \<notin> sup) [0 ..< n]"
      using True by simp
    then have f': "kidx = filter (\<lambda>k. k \<notin> sup) [0 ..< Suc n]"
      using f by (rule ssubst [where P = "\<lambda>z. kidx = z"])
    show ?thesis
      unfolding step nms_inv_def prod.case by (intro conjI) (rule k f' s)+
  next
    case False
    let ?sup' = "sup \<union> {j. n < j \<and> j < length ds \<and> suppresses ds thr n j}"
    have step: "nms_step ds thr n st = (kept @ [ds ! n], kidx @ [n], ?sup')"
      using False by (simp add: nms_step_def st nms_inner_eq)
    have "filter (\<lambda>k. k \<notin> ?sup') [0 ..< n] = filter (\<lambda>k. k \<notin> sup) [0 ..< n]"
      by (rule filter_cong) auto
    then have "filter (\<lambda>k. k \<notin> ?sup') [0 ..< n] = kidx"
      using f [symmetric] by (rule trans)
    moreover have "filter (\<lambda>k. k \<notin> ?sup') [0 ..< Suc n]
        = filter (\<lambda>k. k \<notin> ?sup') [0 ..< n] @ [n]"
      using False by simp
    ultimately have f': "kidx @ [n] = filter (\<lambda>k. k \<notin> ?sup') [0 ..< Suc n]"
      by (simp only:)
    have "{j. j < length ds \<and> (\<exists>k \<in> set (kidx @ [n]). k < j \<and> suppresses ds thr k j)}
        = {j. j < length ds \<and> (\<exists>k \<in> set kidx. k < j \<and> suppresses ds thr k j)}
          \<union> {j. n < j \<and> j < length ds \<and> suppresses ds thr n j}"
      by auto
    then have s': "?sup' = {j. j < length ds \<and> (\<exists>k \<in> set (kidx @ [n]). k < j \<and> suppresses ds thr k j)}"
      unfolding s [symmetric] by (rule sym)
    have k': "kept @ [ds ! n] = map (nth ds) (kidx @ [n])"
      unfolding k by simp
    show ?thesis
      unfolding step nms_inv_def prod.case by (intro conjI) (rule k' f' s')+
  qed
qed

lemma nms_loop_inv: "nms_inv ds thr n (nms_loop ds thr n)"
proof (induction n)
  case 0
  then show ?case by (simp add: nms_loop_def nms_inv_def)
next
  case (Suc n)
  then show ?case by (simp add: nms_loop_Suc nms_step_inv)
qed

lemma sortByConfidence_descending:
  assumes "i < j" and "j < length (sortByConfidence detections)"
  shows "d_confidence (sortByConfidence detections ! j) \<le> d_confidence (sortByConfidence detections ! i)"
proof -
  have "sorted (map (\<lambda>d. - d_confidence d) (sortByConfidence detections))"
    by (simp add: sortByConfidence_def)
  then have "map (\<lambda>d. - d_confidence d) (sortByConfidence detections) ! i
      \<le> map (\<lambda>d. - d_confidence d) (sortByConfidence detections) ! j"
    using assms by (intro sorted_nth_mono) simp_all
  then show ?thesis using assms by simp
qed

lemma nms_characterisation:
  fixes detections thr
  defines "ds \<equiv> sortByConfidence detections"
    and "ks \<equiv> nms_keptIdx detections thr"
  shows "nms detections thr = map (nth ds) ks"
    and "sorted_wrt (<) ks"
    and "set ks \<subseteq> {..< length ds}"
    and "j < length ds \<Longrightarrow> (j \<notin> set ks) = (\<exists>k \<in> set ks. k < j \<and> suppresses ds thr k j)"
proof -
  obtain kept kidx sup where st: "nms_loop ds thr (length ds) = (kept, kidx, sup)"
    by (cases "nms_loop ds thr (length ds)") auto
  have inv: "nms_inv ds thr (length ds) (kept, kidx, sup)"
    using nms_loop_inv [of ds thr "length ds"] by (simp add: st)
  have c: "kept = map (nth ds) kidx
      \<and> kidx = filter (\<lambda>k. k \<notin> sup) [0 ..< length ds]
      \<and> sup = {j. j < length ds \<and> (\<exists>k \<in> set kidx. k < j \<and> suppresses ds thr k j)}"
    using inv unfolding nms_inv_def prod.case .
  note k = c [THEN conjunct1]
    and f = c [THEN conjunct2, THEN conjunct1]
    and s = c [THEN conjunct2, THEN conjunct2]
  have ks: "ks = kidx"
    by (simp add: ks_def nms_keptIdx_def ds_def [symmetric] st Let_def)
  have "nms detections thr = kept"
    by (simp add: nms_def ds_def [symmetric] st Let_def)
  then show "nms detections thr = map (nth ds) ks"
    unfolding ks k .
  have "sorted_wrt (<) (filter (\<lambda>k. k \<notin> sup) [0 ..< length ds])"
    by (intro sorted_wrt_filter) simp
  then show "sorted_wrt (<) ks" unfolding ks f [symmetric] .
  have "set (filter (\<lambda>k. k \<notin> sup) [0 ..< length ds]) = {k. k < length ds \<and> k \<notin> sup}"
    by auto
  then have setk: "set kidx = {k. k < length ds \<and> k \<notin> sup}"
    unfolding f [symmetric] .
  then show "set ks \<subseteq> {..< length ds}" unfolding ks by auto
  assume j: "j < length ds"
  have a: "(j \<notin> set kidx) = (j \<in> sup)" using setk j by auto
  have "(j \<in> {j. j < length ds \<and> (\<exists>k \<in> set kidx. k < j \<and> suppresses ds thr k j)})
      = (\<exists>k \<in> set kidx. k < j \<and> suppresses ds thr k j)"
    using j by simp
  then have b: "(j \<in> sup) = (\<exists>k \<in> set kidx. k < j \<and> suppresses ds thr k j)"
    unfolding s [symmetric] .
  show "(j \<notin> set ks) = (\<exists>k \<in> set ks. k < j \<and> suppresses ds thr k j)"
    unfolding ks using a b by (rule trans)
qed

lemma sortByConfidence_stable:
  "filter (\<lambda>d. d_confidence d = c) (sortByConfidence detections)
    = filter (\<lambda>d. d_confidence d = c) detections"
  using sort_key_stable [of "\<lambda>d. - d_confidence d" "- c" detections]
  by (simp add: sortByConfidence_def)

text \<open>
  C3 (as stated) fails on a chain of three candidates of one class: \<open>box_b\<close> and
  \<open>box_c\<close> have the same class and an IoU above the threshold, yet the one that
  survives is \<open>box_c\<close>, the lower-confidence one, because \<open>box_b\<close> was itself removed by
  \<open>box_a\<close> before it could remove anything.
\<close>

theorem nms_chain_counterexample:
  "nms [box_c, box_a, box_b] (3 / 10) = [box_a, box_c]
   \<and> d_classId box_b = d_classId box_c
   \<and> calculateIoU box_b box_c > 3 / 10
   \<and> d_confidence box_c < d_confidence box_b"
  by (simp add: nms_def nms_loop_def nms_step_def nms_inner_def sortByConfidence_def
      calculateIoU_def box_a_def box_b_def box_c_def Let_def upt_rec)

text \<open>
  C3 (amended). \<open>nms\<close> sorts the candidates by descending confidence, candidates of
  equal confidence keeping their original order, and returns the candidates of the sorted
  list at an ascending list of positions. A candidate is dropped exactly when a kept
  candidate before it in the sorted list has the same class and an IoU with it above the
  threshold. Hence two kept candidates of the same class never have an IoU above the
  threshold, and a candidate is never dropped on account of a candidate of another class.
\<close>

theorem nms_greedy:
  "let ds = sortByConfidence detections; ks = nms_keptIdx detections thr in
     nms detections thr = map (nth ds) ks
     \<and> sorted_wrt (<) ks \<and> set ks \<subseteq> {..< length ds}
     \<and> (\<forall>i j. i < j \<and> j < length ds \<longrightarrow> d_confidence (ds ! j) \<le> d_confidence (ds ! i))
     \<and> (\<forall>c. filter (\<lambda>d. d_confidence d = c) ds = filter (\<lambda>d. d_confidence d = c) detections)
     \<and> (\<forall>j < length ds. (j \<notin> set ks)
          = (\<exists>k \<in> set ks. k < j \<and> d_classId (ds ! k) = d_classId (ds ! j)
               \<and> calculateIoU (ds ! k) (ds ! j) > thr))
     \<and> (\<forall>k \<in> set ks. \<forall>j \<in> set ks. k < j \<and> d_classId (ds ! k) = d_classId (ds ! j)
          \<longrightarrow> calculateIoU (ds ! k) (ds ! j) \<le> thr)"
proof -
  define ds where "ds = sortByConfidence detections"
  define ks where "ks = nms_keptIdx detections thr"
  note ch = nms_characterisation [where detections = detections and thr = thr, folded ds_def ks_def]
  have drop: "(j \<notin> set ks)
      = (\<exists>k \<in> set ks. k < j \<and> d_classId (ds ! k) = d_classId (ds ! j)
           \<and> calculateIoU (ds ! k) (ds ! j) > thr)" if "j < length ds" for j
    using ch(4) [OF that] by (simp add: suppresses_def)
  have pair: "calculateIoU (ds ! k) (ds ! j) \<le> thr"
    if "k \<in> set ks" "j \<in> set ks" "k < j" "d_classId (ds ! k) = d_classId (ds ! j)" for k j
  proof (rule ccontr)
    assume "\<not> calculateIoU (ds ! k) (ds ! j) \<le> thr"
    then have gt: "calculateIoU (ds ! k) (ds ! j) > thr" by simp
    have jl: "j < length ds" using ch(3) that(2) by auto
    have "\<exists>k \<in> set ks. k < j \<and> d_classId (ds ! k) = d_classId (ds ! j)
           \<and> calculateIoU (ds ! k) (ds ! j) > thr"
      using that gt by blast
    then have "j \<notin> set ks" using drop [OF jl] by simp
    then show False using that(2) by simp
  qed
  have desc: "d_confidence (ds ! j) \<le> d_confidence (ds ! i)" if "i < j" "j < length ds" for i j
    using sortByConfidence_descending [of i j detections] that by (simp add: ds_def)
  have stab: "filter (\<lambda>d. d_confidence d = c) ds = filter (\<lambda>d. d_confidence d = c) detections" for c
    by (simp add: ds_def sortByConfidence_stable)
  show ?thesis
    unfolding Let_def ds_def [symmetric] ks_def [symmetric]
    using ch(1) ch(2) ch(3) desc stab drop pair by blast
qed

theorem nms_greedy_witness:
  "sortByConfidence [box_c, box_a, box_b] = [box_a, box_b, box_c]
   \<and> nms_keptIdx [box_c, box_a, box_b] (3 / 10) = [0, 2]
   \<and> nms [box_c, box_a, box_b] (3 / 10) = [box_a, box_c]
   \<and> (1::nat) < length (sortByConfidence [box_c, box_a, box_b])
   \<and> 1 \<notin> set (nms_keptIdx [box_c, box_a, box_b] (3 / 10))
   \<and> 0 \<in> set (nms_keptIdx [box_c, box_a, box_b] (3 / 10))
   \<and> d_classId box_a = d_classId box_b \<and> calculateIoU box_a box_b > 3 / 10
   \<and> calculateIoU box_a box_c \<le> 3 / 10"
  using nms_greedy [of "[box_c, box_a, box_b]" "3 / 10"]
  by (simp add: nms_def nms_keptIdx_def nms_loop_def nms_step_def nms_inner_def
      sortByConfidence_def calculateIoU_def box_a_def box_b_def box_c_def Let_def upt_rec)

section \<open>Bulk operations and the selection\<close>

lemma updateRegions_fields:
  assumes "currentImage c = Some img"
  shows "regions (updateRegions fn c) = (regions c)(img_id img \<mapsto> fn (regionsOf (regions c) (img_id img)))"
    and "history (updateRegions fn c)
      = newHistory (history c) (historyIndex c)
          ((regions c)(img_id img \<mapsto> fn (regionsOf (regions c) (img_id img))))"
    and "selectedRegions (updateRegions fn c) = selectedRegions c"
  using assms by (simp_all add: updateRegions_def commitRegions_def saveToHistory_def Let_def)

text \<open>
  C9 (as stated) fails: with two regions selected, \<open>handleApprove\<close> and
  \<open>handleBulkChangeLabel\<close> leave the selection empty, as \<open>handleDelete\<close> does.
\<close>

theorem bulk_ops_selection_counterexample:
  "selectedRegions (sample_state\<lparr> selectedRegions := [11, 12] \<rparr>) = [11, 12]
   \<and> selectedRegions (handleApprove (sample_state\<lparr> selectedRegions := [11, 12] \<rparr>)) = []
   \<and> selectedRegions (handleBulkChangeLabel ''bus'' (sample_state\<lparr> selectedRegions := [11, 12] \<rparr>)) = []"
  by (simp add: handleApprove_def handleBulkChangeLabel_def)

text \<open>
  C9 (amended). With a current image and a non-empty selection, each bulk operation
  rewrites the current image's list at every region whose id is selected (approve and flag
  set the status, change-label sets the label, delete removes the region) and commits the
  result with one \<open>saveToHistory\<close>. Approve, delete and change-label clear the selection;
  flag alone leaves it unchanged.
\<close>

theorem bulk_ops:
  assumes "selectedRegions c \<noteq> []" and "currentImage c = Some img"
  shows "regions (handleApprove c) = (regions c)(img_id img \<mapsto>
        map (\<lambda>r. if r_id r \<in> set (selectedRegions c) then r\<lparr> r_status := Approved \<rparr> else r)
          (regionsOf (regions c) (img_id img)))
    \<and> history (handleApprove c) = newHistory (history c) (historyIndex c) (regions (handleApprove c))
    \<and> selectedRegions (handleApprove c) = []
    \<and> regions (handleFlag c) = (regions c)(img_id img \<mapsto>
        map (\<lambda>r. if r_id r \<in> set (selectedRegions c) then r\<lparr> r_status := Flagged \<rparr> else r)
          (regionsOf (regions c) (img_id img)))
    \<and> history (handleFlag c) = newHistory (history c) (historyIndex c) (regions (handleFlag c))
    \<and> selectedRegions (handleFlag c) = selectedRegions c
    \<and> regions (handleDelete c) = (regions c)(img_id img \<mapsto>
        filter (\<lambda>r. r_id r \<notin> set (selectedRegions c)) (regionsOf (regions c) (img_id img)))
    \<and> history (handleDelete c) = newHistory (history c) (historyIndex c) (regions (handleDelete c))
    \<and> selectedRegions (handleDelete c) = []
    \<and> regions (handleBulkChangeLabel newLabel c) = (regions c)(img_id img \<mapsto>
        map (\<lambda>r. if r_id r \<in> set (selectedRegions c) then r\<lparr> r_label := newLabel \<rparr> else r)
          (regionsOf (regions c) (img_id img)))
    \<and> history (handleBulkChangeLabel newLabel c)
        = newHistory (history c) (historyIndex c) (regions (handleBulkChangeLabel newLabel c))
    \<and> selectedRegions (handleBulkChangeLabel newLabel c) = []"
  using assms
  by (simp add: handleApprove_def handleFlag_def handleDelete_def handleBulkChangeLabel_def
      updateRegions_fields)

lemma sample_current: "currentImage sample_state = Some sample_image"
  by (simp add: sample_state_def currentImage_def initial_state_def)

theorem bulk_ops_witness:
  "selectedRegions (sample_state\<lparr> selectedRegions := [11] \<rparr>) \<noteq> []
   \<and> currentImage (sample_state\<lparr> selectedRegions := [11] \<rparr>) = Some sample_image
   \<and> map r_status (the (regions (handleFlag (sample_state\<lparr> selectedRegions := [11] \<rparr>)) ''img_1''))
       = [Auto, Flagged, Auto, Auto, Auto]
   \<and> selectedRegions (handleFlag (sample_state\<lparr> selectedRegions := [11] \<rparr>)) = [11]
   \<and> map r_id (the (regions (handleDelete (sample_state\<lparr> selectedRegions := [11] \<rparr>)) ''img_1''))
       = [10, 12, 13, 14]
   \<and> length (history (handleDelete (sample_state\<lparr> selectedRegions := [11] \<rparr>))) = 1"
  using bulk_ops [of "sample_state\<lparr> selectedRegions := [11] \<rparr>" sample_image "''bus''"]
  by (simp add: sample_state_def sample_image_def sample_region_def currentImage_def
      initial_state_def regionsOf_def newHistory_def js_slice_def Let_def)

section \<open>Range selection\<close>

lemma set_js_unique: "set (js_unique xs) = set xs"
  by (simp add: js_unique_def)

lemma set_take_drop_nth:
  "set (take n (drop k xs)) = {xs ! i | i. k \<le> i \<and> i < k + n \<and> i < length xs}"
proof -
  have "take n (drop k xs) = map (nth xs) [k ..< min (k + n) (length xs)]"
    by (auto simp add: list_eq_iff_nth_eq)
  then show ?thesis by auto
qed

lemma set_js_slice:
  assumes "0 \<le> lo" and "lo \<le> hi"
  shows "set (js_slice xs lo (hi + 1))
    = {xs ! i | i. nat lo \<le> i \<and> i \<le> nat hi \<and> i < length xs}"
proof -
  let ?len = "int (length xs)"
  have "js_slice xs lo (hi + 1)
      = take (nat (min (hi + 1) ?len - min lo ?len)) (drop (nat (min lo ?len)) xs)"
    using assms by (simp add: js_slice_def Let_def)
  then have "set (js_slice xs lo (hi + 1))
      = {xs ! i | i. nat (min lo ?len) \<le> i
          \<and> i < nat (min lo ?len) + nat (min (hi + 1) ?len - min lo ?len) \<and> i < length xs}"
    by (simp add: set_take_drop_nth)
  also have "\<dots> = {xs ! i | i. nat lo \<le> i \<and> i \<le> nat hi \<and> i < length xs}"
  proof -
    have "(nat (min lo ?len) \<le> i
          \<and> i < nat (min lo ?len) + nat (min (hi + 1) ?len - min lo ?len) \<and> i < length xs)
        = (nat lo \<le> i \<and> i \<le> nat hi \<and> i < length xs)" for i
      using assms by (auto simp add: min_def)
    then show ?thesis by simp
  qed
  finally show ?thesis .
qed

lemma range_click_fields:
  assumes "annotationMode c \<noteq> Draw" and "shiftKey ev" and "lastSelectedIndex c = Num a"
  shows "selectedRegions (handleSelectRegion ident (Some ev) (Some g) c)
      = js_unique (selectedRegions c @ js_slice (allRegionIds c) (min a g) (max a g + 1))"
    and "lastSelectedIndex (handleSelectRegion ident (Some ev) (Some g) c) = lastSelectedIndex c"
    and "regions (handleSelectRegion ident (Some ev) (Some g) c) = regions c"
  using assms by (simp_all add: handleSelectRegion_def rangeIds_def)

lemma plain_click_fields:
  assumes "annotationMode c \<noteq> Draw" and "\<not> shiftKey ev" and "\<not> metaKey ev" and "\<not> ctrlKey ev"
  shows "handleSelectRegion ident (Some ev) (Some g) c
      = c\<lparr> selectedRegions := [ident], lastSelectedIndex := Num g \<rparr>"
  using assms by (simp add: handleSelectRegion_def anchorOf_def)

lemma five_slice: "js_slice [r0, r1, r2, r3, r4] 1 4 = [r1, r2, r3]"
  by (simp add: js_slice_def Let_def)

text \<open>
  C8. Outside draw mode, a click with the range modifier on the item at index \<open>g\<close>,
  with the anchor at index \<open>a\<close>, makes the selection the previous selection followed
  by the ids at the positions from \<open>min a g\<close> to \<open>max a g\<close> of the current image's
  region list, without duplicates, and leaves the anchor where it was. For five regions
  with distinct ids, a plain click on the second followed by a range click on the fourth
  selects exactly the second, third and fourth.
\<close>

theorem range_click:
  assumes "annotationMode c \<noteq> Draw" and "shiftKey ev" and "lastSelectedIndex c = Num a"
    and "0 \<le> a" and "0 \<le> g"
  shows "selectedRegions (handleSelectRegion ident (Some ev) (Some g) c)
      = js_unique (selectedRegions c @ js_slice (allRegionIds c) (min a g) (max a g + 1))
    \<and> set (selectedRegions (handleSelectRegion ident (Some ev) (Some g) c))
      = set (selectedRegions c)
        \<union> {allRegionIds c ! i | i. nat (min a g) \<le> i \<and> i \<le> nat (max a g) \<and> i < length (allRegionIds c)}
    \<and> lastSelectedIndex (handleSelectRegion ident (Some ev) (Some g) c) = lastSelectedIndex c
    \<and> (\<forall>pl r0 r1 r2 r3 r4.
          \<not> shiftKey pl \<and> \<not> metaKey pl \<and> \<not> ctrlKey pl
          \<and> allRegionIds c = [r0, r1, r2, r3, r4] \<and> distinct [r0, r1, r2, r3, r4]
          \<longrightarrow> selectedRegions (handleSelectRegion r3 (Some ev) (Some 3)
                (handleSelectRegion r1 (Some pl) (Some 1) c)) = [r1, r2, r3])"
proof -
  have sel: "selectedRegions (handleSelectRegion ident (Some ev) (Some g) c)
      = js_unique (selectedRegions c @ js_slice (allRegionIds c) (min a g) (max a g + 1))"
    using range_click_fields(1) [OF assms(1-3)] .
  have lohi: "0 \<le> min a g" "min a g \<le> max a g"
    using assms(4,5) by simp_all
  have st: "set (selectedRegions (handleSelectRegion ident (Some ev) (Some g) c))
      = set (selectedRegions c)
        \<union> {allRegionIds c ! i | i. nat (min a g) \<le> i \<and> i \<le> nat (max a g) \<and> i < length (allRegionIds c)}"
    unfolding sel set_js_unique set_append set_js_slice [OF lohi] ..
  have ex: "selectedRegions (handleSelectRegion r3 (Some ev) (Some 3)
        (handleSelectRegion r1 (Some pl) (Some 1) c)) = [r1, r2, r3]"
    if pl: "\<not> shiftKey pl" "\<not> metaKey pl" "\<not> ctrlKey pl"
      and ids: "allRegionIds c = [r0, r1, r2, r3, r4]" and d: "distinct [r0, r1, r2, r3, r4]"
    for pl r0 r1 r2 r3 r4
  proof -
    let ?c1 = "c\<lparr> selectedRegions := [r1], lastSelectedIndex := Num 1 \<rparr>"
    have c1: "handleSelectRegion r1 (Some pl) (Some 1) c = ?c1"
      using plain_click_fields [OF assms(1) pl] .
    have "allRegionIds ?c1 = allRegionIds c"
      by (simp add: allRegionIds_def currentRegions_def currentImage_def)
    then have ids1: "allRegionIds ?c1 = [r0, r1, r2, r3, r4]"
      using ids by simp
    have "selectedRegions (handleSelectRegion r3 (Some ev) (Some 3) ?c1)
        = js_unique (selectedRegions ?c1 @ js_slice (allRegionIds ?c1) (min 1 3) (max 1 3 + 1))"
      by (rule range_click_fields(1)) (use assms(1,2) in simp_all)
    also have "\<dots> = js_unique ([r1] @ [r1, r2, r3])"
      unfolding ids1 by (simp add: five_slice)
    also have "\<dots> = [r1, r2, r3]"
    proof -
      have a: "r1 \<noteq> r2" "r2 \<noteq> r3" "r1 \<noteq> r3" using d by simp_all
      note b = a [THEN not_sym]
      show ?thesis by (simp add: js_unique_def a b)
    qed
    finally show ?thesis unfolding c1 .
  qed
  show ?thesis
  proof (intro conjI allI impI)
    show "selectedRegions (handleSelectRegion ident (Some ev) (Some g) c)
        = js_unique (selectedRegions c @ js_slice (allRegionIds c) (min a g) (max a g + 1))"
      by (rule sel)
    show "set (selectedRegions (handleSelectRegion ident (Some ev) (Some g) c))
        = set (selectedRegions c)
          \<union> {allRegionIds c ! i | i. nat (min a g) \<le> i \<and> i \<le> nat (max a g) \<and> i < length (allRegionIds c)}"
      by (rule st)
    show "lastSelectedIndex (handleSelectRegion ident (Some ev) (Some g) c) = lastSelectedIndex c"
      by (rule range_click_fields(2) [OF assms(1-3)])
  next
    fix pl :: click and r0 r1 r2 r3 r4 :: int
    assume h: "\<not> shiftKey pl \<and> \<not> metaKey pl \<and> \<not> ctrlKey pl
        \<and> allRegionIds c = [r0, r1, r2, r3, r4] \<and> distinct [r0, r1, r2, r3, r4]"
    show "selectedRegions (handleSelectRegion r3 (Some ev) (Some 3)
        (handleSelectRegion r1 (Some pl) (Some 1) c)) = [r1, r2, r3]"
      by (rule ex [of pl r0 r1 r2 r3 r4])
        (rule h [THEN conjunct1] h [THEN conjunct2, THEN conjunct1]
          h [THEN conjunct2, THEN conjunct2, THEN conjunct1]
          h [THEN conjunct2, THEN conjunct2, THEN conjunct2, THEN conjunct1]
          h [THEN conjunct2, THEN conjunct2, THEN conjunct2, THEN conjunct2])+
  qed
qed

theorem range_click_witness:
  "annotationMode (handleSelectRegion 11 (Some plain_click) (Some 1) sample_state) \<noteq> Draw
   \<and> shiftKey shift_click
   \<and> lastSelectedIndex (handleSelectRegion 11 (Some plain_click) (Some 1) sample_state) = Num 1
   \<and> allRegionIds sample_state = [10, 11, 12, 13, 14]
   \<and> selectedRegions (handleSelectRegion 11 (Some plain_click) (Some 1) sample_state) = [11]
   \<and> selectedRegions (handleSelectRegion 13 (Some shift_click) (Some 3)
        (handleSelectRegion 11 (Some plain_click) (Some 1) sample_state)) = [11, 12, 13]
   \<and> lastSelectedIndex (handleSelectRegion 13 (Some shift_click) (Some 3)
        (handleSelectRegion 11 (Some plain_click) (Some 1) sample_state)) = Num 1"
  using range_click [of "handleSelectRegion 11 (Some plain_click) (Some 1) sample_state"
      shift_click 1 3 13]
  by (simp add: handleSelectRegion_def rangeIds_def anchorOf_def allRegionIds_def
      currentRegions_def currentImage_def regionsOf_def sample_state_def sample_image_def
      sample_region_def initial_state_def plain_click_def shift_click_def js_slice_def
      js_unique_def Let_def)

section \<open>Draw gesture\<close>

lemma mouseUp_regions:
  assumes "isDrawing c" and "drawStart c = Some ds" and "drawCurrent c = Some dc"
    and "currentImage c = Some img"
  shows "regions (handleCanvasMouseUp now c) =
    (let startImg = canvasToImageCoords (p_x ds) (p_y ds) (img_width img) (img_height img);
         endImg = canvasToImageCoords (p_x dc) (p_y dc) (img_width img) (img_height img)
     in if 10 < drawExtent (p_x startImg) (p_x endImg) \<and> 10 < drawExtent (p_y startImg) (p_y endImg)
        then (regions c)(img_id img \<mapsto> regionsOf (regions c) (img_id img)
               @ [drawnRegion now (defaultLabel c) img startImg endImg])
        else regions c)"
  using assms
  by (simp add: handleCanvasMouseUp_def commitRegions_def saveToHistory_def Let_def)

lemma drawnRegion_fields:
  "r_status (drawnRegion now lbl img a b) = Manual"
  "r_confidence (drawnRegion now lbl img a b) = 1"
  "r_label (drawnRegion now lbl img a b) = lbl"
  "r_w (drawnRegion now lbl img a b) = min (drawExtent (p_x a) (p_x b)) (img_width img)"
  "r_h (drawnRegion now lbl img a b) = min (drawExtent (p_y a) (p_y b)) (img_height img)"
  by (simp_all add: drawnRegion_def Let_def)

lemma draw_on_eq:
  "draw_on img a b = initial_state\<lparr> images := [img], annotationMode := Draw, isDrawing := True,
      drawStart := Some a, drawCurrent := Some b, selectedRegions := [] \<rparr>"
  by (simp add: draw_on_def handleCanvasMouseDown_def handleCanvasMouseMove_def currentImage_def
      initial_state_def)

lemma draw_on_fields:
  "isDrawing (draw_on img a b)" "drawStart (draw_on img a b) = Some a"
  "drawCurrent (draw_on img a b) = Some b" "currentImage (draw_on img a b) = Some img"
  "regions (draw_on img a b) = Map.empty" "defaultLabel (draw_on img a b) = ''object''"
  by (simp_all add: draw_on_eq currentImage_def initial_state_def)

lemma half_transform:
  "getImageTransform 1600 1000 = \<lparr> t_scale = 1 / 2, t_offsetX = 0, t_offsetY = 0 \<rparr>"
  by (simp add: getImageTransform_def Let_def CANVAS_WIDTH_def CANVAS_HEIGHT_def round64_values
      round64_zero)

lemma small_transform:
  "getImageTransform 50 50 = \<lparr> t_scale = 10, t_offsetX = 150, t_offsetY = 0 \<rparr>"
  by (simp add: getImageTransform_def Let_def CANVAS_WIDTH_def CANVAS_HEIGHT_def round64_values
      round64_zero)


lemma hd_points:
  "canvasToImageCoords 100 100 1920 1080 = \<lparr> p_x = 240, p_y = 180 \<rparr>"
  "canvasToImageCoords 108 108 1920 1080
    = \<lparr> p_x = 4559894622712627 / 17592186044416, p_y = 3504363460047667 / 17592186044416 \<rparr>"
  by (simp_all add: canvasToImageCoords_def hd_transform Let_def round64_values round64_zero)

lemma half_points:
  "canvasToImageCoords 100 100 1600 1000 = \<lparr> p_x = 200, p_y = 200 \<rparr>"
  "canvasToImageCoords 104 104 1600 1000 = \<lparr> p_x = 208, p_y = 208 \<rparr>"
  "canvasToImageCoords 106 106 1600 1000 = \<lparr> p_x = 212, p_y = 212 \<rparr>"
  by (simp_all add: canvasToImageCoords_def half_transform Let_def round64_values round64_zero)

lemma small_points:
  "canvasToImageCoords 211 100 50 50 = \<lparr> p_x = 3433994715870003 / 562949953421312, p_y = 10 \<rparr>"
  "canvasToImageCoords 311 300 50 50 = \<lparr> p_x = 2265873562520781 / 140737488355328, p_y = 30 \<rparr>"
  by (simp_all add: canvasToImageCoords_def small_transform Let_def round64_values round64_zero)


lemma sample_extents:
  "drawExtent 240 (4559894622712627 / 17592186044416) = 337769972052787 / 17592186044416"
  "drawExtent 180 (3504363460047667 / 17592186044416) = 337769972052787 / 17592186044416"
  "drawExtent 200 208 = 8" "drawExtent 200 212 = 12"
  "drawExtent (3433994715870003 / 562949953421312) (2265873562520781 / 140737488355328)
    = 5629499534213121 / 562949953421312"
  "drawExtent 10 30 = 20" "drawExtent 100 1000 = 900" "drawExtent 100 700 = 600"
  by (simp_all add: drawExtent_def round64_values round64_zero)

text \<open>
  C7 (as stated) fails for a drag measured on the canvas: on a 1920 by 1080 image, shown
  at scale 5/12, a drag of 8 by 8 canvas pixels spans 19.2 by 19.2 image pixels and
  creates a region.
\<close>

theorem small_canvas_drag_counterexample:
  "drawStart (draw_on hd_image \<lparr> p_x = 100, p_y = 100 \<rparr> \<lparr> p_x = 108, p_y = 108 \<rparr>)
      = Some \<lparr> p_x = 100, p_y = 100 \<rparr>
   \<and> drawCurrent (draw_on hd_image \<lparr> p_x = 100, p_y = 100 \<rparr> \<lparr> p_x = 108, p_y = 108 \<rparr>)
      = Some \<lparr> p_x = 108, p_y = 108 \<rparr>
   \<and> map r_status (regionsOf (regions (handleCanvasMouseUp 99
        (draw_on hd_image \<lparr> p_x = 100, p_y = 100 \<rparr> \<lparr> p_x = 108, p_y = 108 \<rparr>))) ''img_hd'')
      = [Manual]
   \<and> map r_w (regionsOf (regions (handleCanvasMouseUp 99
        (draw_on hd_image \<lparr> p_x = 100, p_y = 100 \<rparr> \<lparr> p_x = 108, p_y = 108 \<rparr>))) ''img_hd'')
      = [337769972052787 / 17592186044416]"
proof -
  let ?c = "draw_on hd_image \<lparr> p_x = 100, p_y = 100 \<rparr> \<lparr> p_x = 108, p_y = 108 \<rparr>"
  have r: "regions (handleCanvasMouseUp 99 ?c) ''img_hd''
      = Some [drawnRegion 99 ''object'' hd_image \<lparr> p_x = 240, p_y = 180 \<rparr>
          \<lparr> p_x = 4559894622712627 / 17592186044416, p_y = 3504363460047667 / 17592186044416 \<rparr>]"
    using mouseUp_regions [of ?c "\<lparr> p_x = 100, p_y = 100 \<rparr>" "\<lparr> p_x = 108, p_y = 108 \<rparr>"
        hd_image 99]
    by (simp add: Let_def draw_on_fields hd_image_def hd_points sample_extents regionsOf_def)
  have f: "r_w (drawnRegion 99 ''object'' hd_image \<lparr> p_x = 240, p_y = 180 \<rparr>
          \<lparr> p_x = 4559894622712627 / 17592186044416, p_y = 3504363460047667 / 17592186044416 \<rparr>)
      = 337769972052787 / 17592186044416"
    by (simp add: drawnRegion_fields sample_extents hd_image_def)
  show ?thesis
    unfolding regionsOf_def r by (simp add: draw_on_fields drawnRegion_fields(1) f)
qed

text \<open>
  C7 (amended). When the pointer is released during a draw gesture on the current image, a
  region is appended to that image's list exactly when the width and the height of the
  drag, measured between the two corners after their conversion to image pixels, both
  exceed 10; otherwise the regions are unchanged. A corner is converted by subtracting
  the offset of the displayed image and dividing by its scale, and an extent is the
  absolute difference of the converted coordinates, each operation rounded to a double. The new region has status manual,
  confidence 1 and the current default label. A drag of 8 by 8 image pixels creates
  nothing; a drag of 12 by 12 image pixels appends exactly one region.
\<close>

theorem draw_minimum_size:
  assumes "isDrawing c" and "drawStart c = Some ds" and "drawCurrent c = Some dc"
    and "currentImage c = Some img"
  shows "let t = getImageTransform (img_width img) (img_height img);
             startImg = canvasToImageCoords (p_x ds) (p_y ds) (img_width img) (img_height img);
             endImg = canvasToImageCoords (p_x dc) (p_y dc) (img_width img) (img_height img);
             w = drawExtent (p_x startImg) (p_x endImg);
             h = drawExtent (p_y startImg) (p_y endImg);
             newRegion = drawnRegion now (defaultLabel c) img startImg endImg
         in regions (handleCanvasMouseUp now c)
              = (if 10 < w \<and> 10 < h
                 then (regions c)(img_id img \<mapsto> regionsOf (regions c) (img_id img) @ [newRegion])
                 else regions c)
            \<and> p_x startImg = round64 (round64 (p_x ds - t_offsetX t) / t_scale t)
            \<and> p_y startImg = round64 (round64 (p_y ds - t_offsetY t) / t_scale t)
            \<and> p_x endImg = round64 (round64 (p_x dc - t_offsetX t) / t_scale t)
            \<and> p_y endImg = round64 (round64 (p_y dc - t_offsetY t) / t_scale t)
            \<and> w = \<bar>round64 (p_x endImg - p_x startImg)\<bar>
            \<and> h = \<bar>round64 (p_y endImg - p_y startImg)\<bar>
            \<and> r_status newRegion = Manual \<and> r_confidence newRegion = 1
            \<and> r_label newRegion = defaultLabel c
            \<and> (w = 8 \<and> h = 8 \<longrightarrow> regions (handleCanvasMouseUp now c) = regions c)
            \<and> (w = 12 \<and> h = 12 \<longrightarrow> regions (handleCanvasMouseUp now c) (img_id img)
                  = Some (regionsOf (regions c) (img_id img) @ [newRegion]))"
  using mouseUp_regions [OF assms, of now]
  by (simp add: Let_def drawnRegion_fields canvasToImageCoords_def drawExtent_def)

theorem draw_minimum_size_witness:
  "isDrawing (draw_on half_image \<lparr> p_x = 100, p_y = 100 \<rparr> \<lparr> p_x = 104, p_y = 104 \<rparr>)
   \<and> drawStart (draw_on half_image \<lparr> p_x = 100, p_y = 100 \<rparr> \<lparr> p_x = 104, p_y = 104 \<rparr>)
       = Some \<lparr> p_x = 100, p_y = 100 \<rparr>
   \<and> drawCurrent (draw_on half_image \<lparr> p_x = 100, p_y = 100 \<rparr> \<lparr> p_x = 104, p_y = 104 \<rparr>)
       = Some \<lparr> p_x = 104, p_y = 104 \<rparr>
   \<and> currentImage (draw_on half_image \<lparr> p_x = 100, p_y = 100 \<rparr> \<lparr> p_x = 104, p_y = 104 \<rparr>)
       = Some half_image
   \<and> canvasToImageCoords 100 100 1600 1000 = \<lparr> p_x = 200, p_y = 200 \<rparr>
   \<and> canvasToImageCoords 104 104 1600 1000 = \<lparr> p_x = 208, p_y = 208 \<rparr>
   \<and> canvasToImageCoords 106 106 1600 1000 = \<lparr> p_x = 212, p_y = 212 \<rparr>
   \<and> regions (handleCanvasMouseUp 99
        (draw_on half_image \<lparr> p_x = 100, p_y = 100 \<rparr> \<lparr> p_x = 104, p_y = 104 \<rparr>)) = Map.empty
   \<and> map r_status (regionsOf (regions (handleCanvasMouseUp 99
        (draw_on half_image \<lparr> p_x = 100, p_y = 100 \<rparr> \<lparr> p_x = 106, p_y = 106 \<rparr>))) ''img_half'')
       = [Manual]
   \<and> map r_w (regionsOf (regions (handleCanvasMouseUp 99
        (draw_on small_image \<lparr> p_x = 211, p_y = 100 \<rparr> \<lparr> p_x = 311, p_y = 300 \<rparr>))) ''img_small'')
       = [5629499534213121 / 562949953421312]"
proof -
  let ?c8 = "draw_on half_image \<lparr> p_x = 100, p_y = 100 \<rparr> \<lparr> p_x = 104, p_y = 104 \<rparr>"
  let ?c12 = "draw_on half_image \<lparr> p_x = 100, p_y = 100 \<rparr> \<lparr> p_x = 106, p_y = 106 \<rparr>"
  let ?cs = "draw_on small_image \<lparr> p_x = 211, p_y = 100 \<rparr> \<lparr> p_x = 311, p_y = 300 \<rparr>"
  have w8: "regions (handleCanvasMouseUp 99 ?c8) = Map.empty"
    using draw_minimum_size [of ?c8 "\<lparr> p_x = 100, p_y = 100 \<rparr>" "\<lparr> p_x = 104, p_y = 104 \<rparr>"
        half_image 99]
    by (simp add: Let_def draw_on_fields half_image_def half_points sample_extents)
  have w12: "regions (handleCanvasMouseUp 99 ?c12) ''img_half''
      = Some [drawnRegion 99 ''object'' half_image \<lparr> p_x = 200, p_y = 200 \<rparr> \<lparr> p_x = 212, p_y = 212 \<rparr>]"
    using draw_minimum_size [of ?c12 "\<lparr> p_x = 100, p_y = 100 \<rparr>" "\<lparr> p_x = 106, p_y = 106 \<rparr>"
        half_image 99]
    by (simp add: Let_def draw_on_fields half_image_def half_points sample_extents regionsOf_def)
  have ws: "regions (handleCanvasMouseUp 99 ?cs) ''img_small''
      = Some [drawnRegion 99 ''object'' small_image
          \<lparr> p_x = 3433994715870003 / 562949953421312, p_y = 10 \<rparr>
          \<lparr> p_x = 2265873562520781 / 140737488355328, p_y = 30 \<rparr>]"
    using draw_minimum_size [of ?cs "\<lparr> p_x = 211, p_y = 100 \<rparr>" "\<lparr> p_x = 311, p_y = 300 \<rparr>"
        small_image 99]
    by (simp add: Let_def draw_on_fields small_image_def small_points sample_extents regionsOf_def)
  have f: "r_w (drawnRegion 99 ''object'' small_image
          \<lparr> p_x = 3433994715870003 / 562949953421312, p_y = 10 \<rparr>
          \<lparr> p_x = 2265873562520781 / 140737488355328, p_y = 30 \<rparr>)
      = 5629499534213121 / 562949953421312"
    by (simp add: drawnRegion_fields sample_extents small_image_def)
  show ?thesis
    unfolding regionsOf_def w8 w12 ws
    by (simp add: draw_on_fields half_points drawnRegion_fields(1) f)
qed

section \<open>Gestures and the history\<close>

lemma move_keeps:
  "history (handleCanvasMouseMove p s) = history s"
  "historyIndex (handleCanvasMouseMove p s) = historyIndex s"
  "isDragging (handleCanvasMouseMove p s) = isDragging s"
  "isResizing (handleCanvasMouseMove p s) = isResizing s"
  by (simp_all add: handleCanvasMouseMove_def Let_def split: option.splits prod.splits)

lemma fold_move_keeps:
  "history (fold handleCanvasMouseMove ps s) = history s
   \<and> historyIndex (fold handleCanvasMouseMove ps s) = historyIndex s
   \<and> isDragging (fold handleCanvasMouseMove ps s) = isDragging s
   \<and> isResizing (fold handleCanvasMouseMove ps s) = isResizing s"
  by (induction ps arbitrary: s) (simp_all add: move_keeps)

lemma mouseUp_history:
  assumes "isDragging c \<or> isResizing c"
  shows "history (handleCanvasMouseUp now c) = newHistory (history c) (historyIndex c) (regions c)"
    and "historyIndex (handleCanvasMouseUp now c)
      = int (length (newHistory (history c) (historyIndex c) (regions c))) - 1"
  using assms
  by (auto simp add: handleCanvasMouseUp_def saveToHistory_def Let_def)

lemma newHistory_top:
  assumes "idx = int (length hist) - 1" and "length hist < 50"
  shows "newHistory hist idx r = hist @ [r]"
  using assms by (simp add: newHistory_def js_slice_def Let_def)

lemma start_keeps:
  "history (handleDragStart rid p c) = history c"
  "historyIndex (handleDragStart rid p c) = historyIndex c"
  "history (handleResizeStart rid hnd p c) = history c"
  "historyIndex (handleResizeStart rid hnd p c) = historyIndex c"
  by (simp_all add: handleDragStart_def handleResizeStart_def Let_def split: option.splits)

text \<open>
  C5 (amended). During a drag or resize gesture no pointer move changes the history list
  or the pointer, and starting the gesture does not either; the pointer-up that ends the
  gesture calls \<open>saveToHistory\<close> once, on the regions as the moves left them: the history
  becomes the entries up to the pointer followed by that one snapshot (the oldest entry
  dropped above 50). When the pointer was at the top of a history of fewer than 50
  entries, the history grows by exactly that one entry.
\<close>

theorem gesture_single_snapshot:
  assumes "isDragging s0 \<or> isResizing s0"
  shows "(\<forall>k \<le> length ps.
            history (fold handleCanvasMouseMove (take k ps) s0) = history s0
            \<and> historyIndex (fold handleCanvasMouseMove (take k ps) s0) = historyIndex s0)
    \<and> history (handleCanvasMouseUp now (fold handleCanvasMouseMove ps s0))
        = newHistory (history s0) (historyIndex s0) (regions (fold handleCanvasMouseMove ps s0))
    \<and> historyIndex (handleCanvasMouseUp now (fold handleCanvasMouseMove ps s0))
        = int (length (history (handleCanvasMouseUp now (fold handleCanvasMouseMove ps s0)))) - 1
    \<and> (historyIndex s0 = int (length (history s0)) - 1 \<and> length (history s0) < 50
         \<longrightarrow> history (handleCanvasMouseUp now (fold handleCanvasMouseMove ps s0))
               = history s0 @ [regions (fold handleCanvasMouseMove ps s0)])
    \<and> history (handleDragStart rid p c) = history c
    \<and> history (handleResizeStart rid hnd p c) = history c"
proof -
  let ?s1 = "fold handleCanvasMouseMove ps s0"
  have g: "isDragging ?s1 \<or> isResizing ?s1"
    using assms fold_move_keeps [of ps s0] by simp
  have h: "history (handleCanvasMouseUp now ?s1)
      = newHistory (history s0) (historyIndex s0) (regions ?s1)"
    using mouseUp_history(1) [OF g, of now] fold_move_keeps [of ps s0] by simp
  have i: "historyIndex (handleCanvasMouseUp now ?s1)
      = int (length (history (handleCanvasMouseUp now ?s1))) - 1"
    using mouseUp_history [OF g, of now] by simp
  have t: "history (handleCanvasMouseUp now ?s1) = history s0 @ [regions ?s1]"
    if "historyIndex s0 = int (length (history s0)) - 1" "length (history s0) < 50"
    using h newHistory_top [OF that] by simp
  show ?thesis
    using h i t by (simp add: fold_move_keeps start_keeps)
qed

lemma flag_fields:
  assumes "selectedRegions c \<noteq> []" and "currentImage c = Some img"
  shows "history (handleFlag c) = newHistory (history c) (historyIndex c) (regions (handleFlag c))"
    and "historyIndex (handleFlag c) = int (length (history (handleFlag c))) - 1"
    and "selectedRegions (handleFlag c) = selectedRegions c"
    and "currentImage (handleFlag c) = Some img"
    and "annotationMode (handleFlag c) = annotationMode c"
    and "regions (handleFlag c) (img_id img) = Some
      (map (\<lambda>r. if r_id r \<in> set (selectedRegions c) then r\<lparr> r_status := Flagged \<rparr> else r)
        (regionsOf (regions c) (img_id img)))"
proof -
  have ci: "currentImage (handleFlag c) = currentImage c"
    by (simp add: handleFlag_def updateRegions_def commitRegions_def saveToHistory_def
        currentImage_def Let_def split: option.splits)
  show "currentImage (handleFlag c) = Some img"
    using ci assms(2) by simp
  show "history (handleFlag c) = newHistory (history c) (historyIndex c) (regions (handleFlag c))"
    and "historyIndex (handleFlag c) = int (length (history (handleFlag c))) - 1"
    and "selectedRegions (handleFlag c) = selectedRegions c"
    and "annotationMode (handleFlag c) = annotationMode c"
    and "regions (handleFlag c) (img_id img) = Some
      (map (\<lambda>r. if r_id r \<in> set (selectedRegions c) then r\<lparr> r_status := Flagged \<rparr> else r)
        (regionsOf (regions c) (img_id img)))"
    using assms
    by (simp_all add: handleFlag_def updateRegions_def commitRegions_def saveToHistory_def Let_def)
qed

lemma newHistory_length:
  assumes "0 \<le> idx + 1" and "idx + 1 \<le> int (length hist)" and "idx + 1 < 50"
  shows "length (newHistory hist idx r) = nat (idx + 1) + 1"
proof -
  have "js_slice hist 0 (idx + 1) = take (nat (idx + 1)) hist"
    using assms(1) by (rule js_slice_prefix)
  moreover have "length (take (nat (idx + 1)) hist) = nat (idx + 1)"
    using assms(1,2) by simp
  moreover have "nat (idx + 1) < 50"
    using assms(1,3) by simp
  ultimately show ?thesis
    by (simp add: newHistory_def Let_def)
qed

lemma edit_state_fields:
  "selectedRegions edit_state = [11]" "currentImage edit_state = Some sample_image"
  "history edit_state = []" "historyIndex edit_state = - 1" "annotationMode edit_state = Edit"
  "regions edit_state ''img_1'' = Some (map sample_region [10, 11, 12, 13, 14])"
  by (simp_all add: edit_state_def sample_state_def initial_state_def currentImage_def)

lemma flagged_once_fields:
  "selectedRegions flagged_once = [11]" "currentImage flagged_once = Some sample_image"
  "length (history flagged_once) = 1" "historyIndex flagged_once = 0"
  "annotationMode flagged_once = Edit"
  "regions flagged_once ''img_1'' = Some [sample_region 10, (sample_region 11)\<lparr> r_status := Flagged \<rparr>,
      sample_region 12, sample_region 13, sample_region 14]"
  "history flagged_once ! 0 = regions flagged_once"
proof -
  have s: "selectedRegions edit_state \<noteq> []" by (simp add: edit_state_fields)
  note f = flag_fields [OF s edit_state_fields(2), folded flagged_once_def]
  show "selectedRegions flagged_once = [11]" using f(3) by (simp add: edit_state_fields)
  show "currentImage flagged_once = Some sample_image" by (rule f(4))
  have h: "history flagged_once = [regions flagged_once]"
    using f(1) by (simp add: edit_state_fields newHistory_def js_slice_def)
  show "length (history flagged_once) = 1" by (simp add: h)
  show "historyIndex flagged_once = 0" using f(2) by (simp add: h)
  show "annotationMode flagged_once = Edit" using f(5) by (simp add: edit_state_fields)
  show "regions flagged_once ''img_1'' = Some [sample_region 10, (sample_region 11)\<lparr> r_status := Flagged \<rparr>,
      sample_region 12, sample_region 13, sample_region 14]"
    using f(6) by (simp add: edit_state_fields sample_image_def regionsOf_def sample_region_def)
  show "history flagged_once ! 0 = regions flagged_once" by (simp add: h)
qed

lemma flag_again:
  assumes "selectedRegions c = [11]" and "currentImage c = Some sample_image"
    and "historyIndex c = int (length (history c)) - 1" and "length (history c) < 50"
  shows "selectedRegions (handleFlag c) = [11]" and "currentImage (handleFlag c) = Some sample_image"
    and "historyIndex (handleFlag c) = int (length (history (handleFlag c))) - 1"
    and "history (handleFlag c) = history c @ [regions (handleFlag c)]"
    and "annotationMode (handleFlag c) = annotationMode c"
proof -
  have s: "selectedRegions c \<noteq> []" using assms(1) by simp
  note f = flag_fields [OF s assms(2)]
  show "selectedRegions (handleFlag c) = [11]" using f(3) assms(1) by simp
  show "currentImage (handleFlag c) = Some sample_image" by (rule f(4))
  show "historyIndex (handleFlag c) = int (length (history (handleFlag c))) - 1" by (rule f(2))
  show "history (handleFlag c) = history c @ [regions (handleFlag c)]"
    using f(1) newHistory_top [OF assms(3,4)] by simp
  show "annotationMode (handleFlag c) = annotationMode c" by (rule f(5))
qed


lemma flagged_thrice_fields:
  "length (history flagged_thrice) = 3" "historyIndex flagged_thrice = 2"
  "history flagged_thrice ! 0 = regions flagged_once"
  "currentImage flagged_thrice = Some sample_image" "annotationMode flagged_thrice = Edit"
proof -
  let ?c2 = "handleFlag flagged_once"
  have t: "flagged_thrice = handleFlag ?c2"
    by (simp add: flagged_thrice_def flagged_once_def)
  have top1: "historyIndex flagged_once = int (length (history flagged_once)) - 1"
    "length (history flagged_once) < 50"
    by (simp_all add: flagged_once_fields)
  note a = flag_again [OF flagged_once_fields(1,2) top1]
  have l2: "length (history ?c2) = 2"
    using a(4) by (simp add: flagged_once_fields)
  have top2: "length (history ?c2) < 50" by (simp add: l2)
  note b = flag_again [OF a(1,2,3) top2, folded t]
  show "length (history flagged_thrice) = 3"
    using b(4) by (simp add: l2)
  then show "historyIndex flagged_thrice = 2"
    using b(3) by simp
  have "history flagged_thrice ! 0 = history flagged_once ! 0"
    using b(4) a(4) by (simp add: nth_append l2 flagged_once_fields)
  then show "history flagged_thrice ! 0 = regions flagged_once"
    by (simp add: flagged_once_fields)
  show "currentImage flagged_thrice = Some sample_image" by (rule b(2))
  show "annotationMode flagged_thrice = Edit"
    using b(5) a(5) by (simp add: flagged_once_fields)
qed

lemma undo_keeps:
  "currentImage (handleUndo c) = currentImage c"
  "annotationMode (handleUndo c) = annotationMode c"
  by (simp_all add: handleUndo_def currentImage_def)

lemma undone_twice_fields:
  "length (history undone_twice) = 3" "historyIndex undone_twice = 0"
  "regions undone_twice = regions flagged_once"
  "currentImage undone_twice = Some sample_image" "annotationMode undone_twice = Edit"
proof -
  let ?u1 = "handleUndo flagged_thrice"
  have p1: "0 < historyIndex flagged_thrice"
    "historyIndex flagged_thrice \<le> int (length (history flagged_thrice))"
    by (simp_all add: flagged_thrice_fields)
  note a = undo_step [OF p1]
  have i1: "historyIndex ?u1 = 1" using a(2) by (simp add: flagged_thrice_fields)
  have p2: "0 < historyIndex ?u1" "historyIndex ?u1 \<le> int (length (history ?u1))"
    using a(1) by (simp_all add: i1 flagged_thrice_fields)
  note b = undo_step [OF p2, folded undone_twice_def]
  show "length (history undone_twice) = 3"
    using b(1) a(1) by (simp add: flagged_thrice_fields)
  show "historyIndex undone_twice = 0" using b(2) by (simp add: i1)
  show "regions undone_twice = regions flagged_once"
    using b(3) a(1) by (simp add: i1 flagged_thrice_fields)
  show "currentImage undone_twice = Some sample_image"
    by (simp add: undone_twice_def undo_keeps flagged_thrice_fields)
  show "annotationMode undone_twice = Edit"
    by (simp add: undone_twice_def undo_keeps flagged_thrice_fields)
qed

lemma drag_from_fields:
  assumes "annotationMode s = Edit" and "currentImage s = Some sample_image"
    and "regions s = regions flagged_once"
  shows "isDragging (drag_from s)" and "history (drag_from s) = history s"
    and "historyIndex (drag_from s) = historyIndex s"
proof -
  have "currentRegions s = [sample_region 10, (sample_region 11)\<lparr> r_status := Flagged \<rparr>,
      sample_region 12, sample_region 13, sample_region 14]"
    using assms(2,3)
    by (simp add: currentRegions_def regionsOf_def flagged_once_fields sample_image_def)
  then have "find (\<lambda>r. r_id r = 11) (currentRegions s) = Some ((sample_region 11)\<lparr> r_status := Flagged \<rparr>)"
    by (simp add: sample_region_def)
  then show "isDragging (drag_from s)"
    using assms(1,2) by (simp add: drag_from_def handleDragStart_def Let_def)
  show "history (drag_from s) = history s" "historyIndex (drag_from s) = historyIndex s"
    by (simp_all add: drag_from_def start_keeps)
qed

text \<open>
  C5 (as stated) fails after an undo: with three entries in the history and the pointer
  moved back to the first by two undos, a completed drag leaves two entries, not four.
\<close>

theorem gesture_redo_tail_counterexample:
  "isDragging (drag_from undone_twice)
   \<and> length (history (drag_from undone_twice)) = 3
   \<and> length (history (handleCanvasMouseUp 0
        (fold handleCanvasMouseMove drag_moves (drag_from undone_twice)))) = 2"
proof -
  let ?s0 = "drag_from undone_twice"
  let ?s1 = "fold handleCanvasMouseMove drag_moves ?s0"
  note d = drag_from_fields [OF undone_twice_fields(5,4,3)]
  have g: "isDragging ?s1 \<or> isResizing ?s1"
    using d(1) fold_move_keeps [of drag_moves ?s0] by simp
  have "history (handleCanvasMouseUp 0 ?s1) = newHistory (history ?s1) (historyIndex ?s1) (regions ?s1)"
    by (rule mouseUp_history(1) [OF g])
  also have "\<dots> = newHistory (history undone_twice) 0 (regions ?s1)"
    using fold_move_keeps [of drag_moves ?s0] d(2,3) by (simp add: undone_twice_fields)
  finally have "length (history (handleCanvasMouseUp 0 ?s1)) = 2"
    by (simp add: newHistory_length undone_twice_fields)
  then show ?thesis
    using d by (simp add: undone_twice_fields)
qed

theorem gesture_single_snapshot_witness:
  "(isDragging (drag_from flagged_once) \<or> isResizing (drag_from flagged_once))
   \<and> length (history (fold handleCanvasMouseMove (take 1 drag_moves) (drag_from flagged_once))) = 1
   \<and> length (history (fold handleCanvasMouseMove drag_moves (drag_from flagged_once))) = 1
   \<and> length (history (handleCanvasMouseUp 0
        (fold handleCanvasMouseMove drag_moves (drag_from flagged_once)))) = 2"
proof -
  let ?s0 = "drag_from flagged_once"
  note d = drag_from_fields [OF flagged_once_fields(5,2) refl]
  have g: "isDragging ?s0 \<or> isResizing ?s0" using d(1) by simp
  have top: "historyIndex ?s0 = int (length (history ?s0)) - 1 \<and> length (history ?s0) < 50"
    using d(2,3) by (simp add: flagged_once_fields)
  have k: "(1::nat) \<le> length drag_moves" by (simp add: drag_moves_def)
  note th = gesture_single_snapshot [OF g, of drag_moves 0]
  have m1: "history (fold handleCanvasMouseMove (take 1 drag_moves) ?s0) = history ?s0"
    using th [THEN conjunct1, rule_format, OF k] by simp
  have m2: "history (fold handleCanvasMouseMove drag_moves ?s0) = history ?s0"
    using th [THEN conjunct1, rule_format, of "length drag_moves"] by simp
  have up: "history (handleCanvasMouseUp 0 (fold handleCanvasMouseMove drag_moves ?s0))
      = history ?s0 @ [regions (fold handleCanvasMouseMove drag_moves ?s0)]"
    using th top by blast
  show ?thesis
    using g m1 m2 up d(2) by (simp add: flagged_once_fields)
qed

section \<open>All-images detection\<close>

lemma length_detectionRegions:
  "length (detectionRegions clk off dets) = objectCount (Inr dets)"
  by (simp add: detectionRegions_def objectCount_def)

lemma detectAllStep_eq:
  "detectAllStep run clock img (pc, tot, anr) =
    (pc + 1, tot + objectCount (run img),
     case run img of
       Inl err \<Rightarrow> anr
     | Inr dets \<Rightarrow> anr(img_id img \<mapsto> detectionRegions (clock (pc + 1)) (int (pc + 1) * 10000) dets))"
  by (simp add: detectAllStep_def Let_def length_detectionRegions objectCount_def split: sum.splits)

lemma detectAll_fold:
  assumes "distinct (map img_id imgs)"
  shows "\<exists>anr'. fold (detectAllStep run clock) imgs (pc, tot, anr)
        = (pc + length imgs, tot + sum_list (map (\<lambda>img. objectCount (run img)) imgs), anr')
      \<and> (\<forall>i < length imgs. anr' (img_id (imgs ! i)) =
            (case run (imgs ! i) of
               Inl err \<Rightarrow> anr (img_id (imgs ! i))
             | Inr dets \<Rightarrow> Some (detectionRegions (clock (pc + i + 1)) (int (pc + i + 1) * 10000) dets)))
      \<and> (\<forall>k. k \<notin> img_id ` set imgs \<longrightarrow> anr' k = anr k)"
  using assms
proof (induction imgs arbitrary: pc tot anr)
  case Nil
  then show ?case by simp
next
  case (Cons img imgs)
  define anr1 where "anr1 =
    (case run img of
       Inl err \<Rightarrow> anr
     | Inr dets \<Rightarrow> anr(img_id img \<mapsto> detectionRegions (clock (pc + 1)) (int (pc + 1) * 10000) dets))"
  have step: "detectAllStep run clock img (pc, tot, anr) = (pc + 1, tot + objectCount (run img), anr1)"
    by (simp add: detectAllStep_eq anr1_def)
  have d: "distinct (map img_id imgs)" and notin: "img_id img \<notin> img_id ` set imgs"
    using Cons.prems by simp_all
  obtain anr' where
    f: "fold (detectAllStep run clock) imgs (pc + 1, tot + objectCount (run img), anr1)
        = (pc + 1 + length imgs,
           tot + objectCount (run img) + sum_list (map (\<lambda>img. objectCount (run img)) imgs), anr')"
    and a: "\<forall>i < length imgs. anr' (img_id (imgs ! i)) =
            (case run (imgs ! i) of
               Inl err \<Rightarrow> anr1 (img_id (imgs ! i))
             | Inr dets \<Rightarrow> Some (detectionRegions (clock (pc + 1 + i + 1)) (int (pc + 1 + i + 1) * 10000) dets))"
    and b: "\<forall>k. k \<notin> img_id ` set imgs \<longrightarrow> anr' k = anr1 k"
    using Cons.IH [OF d, of "pc + 1" "tot + objectCount (run img)" anr1] by blast
  have other: "anr1 k = anr k" if "k \<noteq> img_id img" for k
    using that by (simp add: anr1_def split: sum.splits)
  have head: "anr' (img_id img) =
      (case run img of
         Inl err \<Rightarrow> anr (img_id img)
       | Inr dets \<Rightarrow> Some (detectionRegions (clock (pc + 0 + 1)) (int (pc + 0 + 1) * 10000) dets))"
    using b notin by (simp add: anr1_def split: sum.splits)
  have tail: "anr' (img_id (imgs ! i)) =
      (case run (imgs ! i) of
         Inl err \<Rightarrow> anr (img_id (imgs ! i))
       | Inr dets \<Rightarrow> Some (detectionRegions (clock (pc + Suc i + 1)) (int (pc + Suc i + 1) * 10000) dets))"
    if "i < length imgs" for i
  proof -
    have "img_id (imgs ! i) \<noteq> img_id img"
      using notin that by (metis imageI nth_mem)
    then have o: "anr1 (img_id (imgs ! i)) = anr (img_id (imgs ! i))"
      by (rule other)
    have e: "pc + 1 + i + 1 = pc + Suc i + 1" by simp
    have "anr' (img_id (imgs ! i)) =
      (case run (imgs ! i) of
         Inl err \<Rightarrow> anr1 (img_id (imgs ! i))
       | Inr dets \<Rightarrow> Some (detectionRegions (clock (pc + 1 + i + 1)) (int (pc + 1 + i + 1) * 10000) dets))"
      using a that by blast
    then show ?thesis
      unfolding e o by (simp split: sum.splits)
  qed
  have all: "\<forall>i < length (img # imgs). anr' (img_id ((img # imgs) ! i)) =
      (case run ((img # imgs) ! i) of
         Inl err \<Rightarrow> anr (img_id ((img # imgs) ! i))
       | Inr dets \<Rightarrow> Some (detectionRegions (clock (pc + i + 1)) (int (pc + i + 1) * 10000) dets))"
  proof (intro allI impI)
    fix i assume "i < length (img # imgs)"
    show "anr' (img_id ((img # imgs) ! i)) =
      (case run ((img # imgs) ! i) of
         Inl err \<Rightarrow> anr (img_id ((img # imgs) ! i))
       | Inr dets \<Rightarrow> Some (detectionRegions (clock (pc + i + 1)) (int (pc + i + 1) * 10000) dets))"
    proof (cases i)
      case 0
      show ?thesis unfolding 0 nth_Cons_0 by (rule head)
    next
      case (Suc j)
      then have "j < length imgs" using \<open>i < length (img # imgs)\<close> by simp
      then show ?thesis unfolding Suc nth_Cons_Suc by (rule tail)
    qed
  qed
  have rest: "\<forall>k. k \<notin> img_id ` set (img # imgs) \<longrightarrow> anr' k = anr k"
    using b other by simp
  have "fold (detectAllStep run clock) (img # imgs) (pc, tot, anr)
      = (pc + length (img # imgs),
         tot + sum_list (map (\<lambda>img. objectCount (run img)) (img # imgs)), anr')"
    using f by (simp add: step add.assoc)
  then show ?case using all rest by blast
qed


text \<open>
  C6 (as stated) fails in its report: with three images of which the second fails, the
  final message counts 2 objects in 3 images, the length of the image list, while 2
  images succeeded.
\<close>

theorem detect_all_report_counterexample:
  "images three_images = [image_1, image_2, image_3]
   \<and> second_fails image_1 = Inr (Some [car_det])
   \<and> second_fails image_2 = Inl ''Network error''
   \<and> second_fails image_3 = Inr (Some [car_det])
   \<and> toast (executeDetectAll second_fails still_clock three_images) = Some (ToastCompleted 2 3)"
  by (simp add: executeDetectAll_def detectAllStep_def detectionRegions_def three_images_def
      image_1_def image_2_def image_3_def second_fails_def initial_state_def Let_def)

text \<open>
  C6 (amended). In an all-images run over images with distinct ids, the image at
  position \<open>i\<close> gets the regions decoded from its response when its request succeeds,
  and keeps its previous regions when the request fails, whatever happens to the other
  images; images outside the list are untouched. The merged result is committed with
  one \<open>saveToHistory\<close>. The final message reports the total number of detected objects
  and the number of images in the list, failed ones included.
\<close>

theorem detect_all_isolation:
  assumes "distinct (map img_id (images c))"
  shows "(\<forall>i < length (images c).
           regions (executeDetectAll run clock c) (img_id (images c ! i)) =
             (case run (images c ! i) of
                Inl err \<Rightarrow> regions c (img_id (images c ! i))
              | Inr dets \<Rightarrow> Some (detectionRegions (clock (i + 1)) (int (i + 1) * 10000) dets)))
    \<and> (\<forall>k. k \<notin> img_id ` set (images c) \<longrightarrow> regions (executeDetectAll run clock c) k = regions c k)
    \<and> history (executeDetectAll run clock c)
        = newHistory (history c) (historyIndex c) (regions (executeDetectAll run clock c))
    \<and> historyIndex (executeDetectAll run clock c)
        = int (length (history (executeDetectAll run clock c))) - 1
    \<and> toast (executeDetectAll run clock c)
        = Some (ToastCompleted (sum_list (map (\<lambda>img. objectCount (run img)) (images c)))
            (length (images c)))"
proof -
  obtain anr' where
    f: "fold (detectAllStep run clock) (images c) (0, 0, Map.empty)
        = (0 + length (images c), 0 + sum_list (map (\<lambda>img. objectCount (run img)) (images c)), anr')"
    and a: "\<forall>i < length (images c). anr' (img_id (images c ! i)) =
            (case run (images c ! i) of
               Inl err \<Rightarrow> Map.empty (img_id (images c ! i))
             | Inr dets \<Rightarrow> Some (detectionRegions (clock (0 + i + 1)) (int (0 + i + 1) * 10000) dets))"
    and b: "\<forall>k. k \<notin> img_id ` set (images c) \<longrightarrow> anr' k = Map.empty k"
    using detectAll_fold [OF assms, of run clock 0 0 Map.empty] by blast
  let ?s = "executeDetectAll run clock c"
  have r: "regions ?s = regions c ++ anr'"
    by (simp add: executeDetectAll_def f commitRegions_def saveToHistory_def Let_def)
  have h: "history ?s = newHistory (history c) (historyIndex c) (regions ?s)"
    by (simp add: executeDetectAll_def f commitRegions_def saveToHistory_def Let_def)
  have hi: "historyIndex ?s = int (length (history ?s)) - 1"
    by (simp add: executeDetectAll_def f commitRegions_def saveToHistory_def Let_def)
  have t: "toast ?s = Some (ToastCompleted (sum_list (map (\<lambda>img. objectCount (run img)) (images c)))
            (length (images c)))"
    by (simp add: executeDetectAll_def f)
  have p1: "regions ?s (img_id (images c ! i)) =
      (case run (images c ! i) of
         Inl err \<Rightarrow> regions c (img_id (images c ! i))
       | Inr dets \<Rightarrow> Some (detectionRegions (clock (i + 1)) (int (i + 1) * 10000) dets))"
    if "i < length (images c)" for i
    using a that by (simp add: r map_add_def split: sum.splits)
  have p2: "regions ?s k = regions c k" if "k \<notin> img_id ` set (images c)" for k
    using b that by (simp add: r map_add_def)
  show ?thesis
    using p1 p2 h hi t by blast
qed

theorem detect_all_isolation_witness:
  "distinct (map img_id (images three_images))
   \<and> map r_id (the (regions (executeDetectAll second_fails still_clock three_images) ''img_1'')) = [11000]
   \<and> regions (executeDetectAll second_fails still_clock three_images) ''img_2'' = None
   \<and> map r_id (the (regions (executeDetectAll second_fails still_clock three_images) ''img_3'')) = [31000]
   \<and> length (history (executeDetectAll second_fails still_clock three_images)) = 1"
proof -
  have d: "distinct (map img_id (images three_images))"
    by (simp add: three_images_def image_1_def image_2_def image_3_def)
  note th = detect_all_isolation [OF d, of second_fails still_clock]
  have i: "images three_images = [image_1, image_2, image_3]"
    by (simp add: three_images_def)
  have r1: "regions (executeDetectAll second_fails still_clock three_images) (img_id (images three_images ! 0))
      = Some (detectionRegions (still_clock (0 + 1)) (int (0 + 1) * 10000) (Some [car_det]))"
    using th [THEN conjunct1, rule_format, of 0]
    by (simp add: i second_fails_def image_1_def)
  have r2: "regions (executeDetectAll second_fails still_clock three_images) (img_id (images three_images ! 1))
      = regions three_images (img_id (images three_images ! 1))"
    using th [THEN conjunct1, rule_format, of 1]
    by (simp add: i second_fails_def image_2_def)
  have r3: "regions (executeDetectAll second_fails still_clock three_images) (img_id (images three_images ! 2))
      = Some (detectionRegions (still_clock (2 + 1)) (int (2 + 1) * 10000) (Some [car_det]))"
    using th [THEN conjunct1, rule_format, of 2]
    by (simp add: i second_fails_def image_3_def)
  have h: "length (history (executeDetectAll second_fails still_clock three_images)) = 1"
    using th by (simp add: three_images_def initial_state_def newHistory_def js_slice_def)
  show ?thesis
    using d r1 r2 r3 h
    by (simp add: i image_1_def image_2_def image_3_def detectionRegions_def detectionRegion_def
        still_clock_def three_images_def initial_state_def)
qed

section \<open>Image bounds\<close>







lemma in_bounds_status [simp]: "in_bounds img (r\<lparr> r_status := s \<rparr>) = in_bounds img r"
  by (simp add: in_bounds_def)

lemma in_bounds_label [simp]: "in_bounds img (r\<lparr> r_label := l \<rparr>) = in_bounds img r"
  by (simp add: in_bounds_def)

lemma regionsOf_upd [simp]: "regionsOf (m(k \<mapsto> v)) k = v"
  by (simp add: regionsOf_def)











end
